theory Spec2Isabelle
  imports Complex_Main "HOL-Library.Sublist" "HOL-Library.Char_ord" "HOL-Library.List_Lexorder"
begin

section \<open>Generalized Lucas cubes (core/lucas\_cube.py)\<close>

text \<open>
  Python exceptions that the modelled functions can raise.  A function that can raise
  returns \<open>py_error + 'a\<close>, with \<open>Inl\<close> for the exception.
\<close>

datatype py_error = ValueError | IndexError | ZeroDivisionError | OverflowError

text \<open>
  The object built by \<open>GeneralizedLucasCube.__init__\<close>: the fields \<open>self.n\<close> and
  \<open>self.s\<close>.  The constructor raises \<open>ValueError\<close> unless \<open>n > 0\<close> and \<open>s > 1\<close>, so
  both fields are natural numbers in every cube that exists.
\<close>

record cube =
  cube_n :: nat
  cube_s :: nat

definition GeneralizedLucasCube :: "int \<Rightarrow> int \<Rightarrow> py_error + cube" where
  "GeneralizedLucasCube n s =
     (if \<not> n > 0 then Inl ValueError
      else if \<not> s > 1 then Inl ValueError
      else Inr \<lparr>cube_n = nat n, cube_s = nat s\<rparr>)"

text \<open>\<open>self.forbidden_pattern = '1' * s\<close>\<close>

definition forbidden_pattern :: "cube \<Rightarrow> string" where
  "forbidden_pattern c = replicate (cube_s c) CHR ''1''"

text \<open>
  \<open>_has_forbidden_substring(bits, pattern)\<close>.  Python's \<open>pattern in bits\<close> on strings
  is the contiguous-substring test, \<^const>\<open>sublist\<close>.  The slices
  \<open>bits[n_len - s_len + 1:]\<close> and \<open>bits[:s_len - 1]\<close> are taken only when
  \<open>s_len \<le> n_len\<close> and \<open>1 < s_len\<close>, where both indices are non-negative.
\<close>

definition has_forbidden_substring :: "string \<Rightarrow> string \<Rightarrow> bool" where
  "has_forbidden_substring bits pattern =
     (let n_len = length bits; s_len = length pattern in
      if n_len < s_len then False
      else if sublist pattern bits then True
      else if s_len > 1 \<and>
              sublist pattern (drop (n_len - s_len + 1) bits @ take (s_len - 1) bits)
           then True
      else False)"

text \<open>
  \<open>format(i, f'0{n}b')\<close>: the binary digits of \<open>i\<close>, most significant first,
  padded on the left with \<open>'0'\<close> to at least \<open>n\<close> characters.
\<close>

definition bit_char :: "nat \<Rightarrow> char" where
  "bit_char k = (if k = 0 then CHR ''0'' else CHR ''1'')"

function bin_digits :: "nat \<Rightarrow> string" where
  "bin_digits i = (if i < 2 then [bit_char i] else bin_digits (i div 2) @ [bit_char (i mod 2)])"
  by pat_completeness auto
termination
  by (relation "measure id") auto

declare bin_digits.simps [simp del]

definition format_0b :: "nat \<Rightarrow> nat \<Rightarrow> string" where
  "format_0b width i = replicate (width - length (bin_digits i)) CHR ''0'' @ bin_digits i"

text \<open>\<open>_generate_vertices\<close>: the loop over \<open>range(1 << self.n)\<close>, appending in order.\<close>

definition generate_vertices :: "cube \<Rightarrow> string list" where
  "generate_vertices c =
     filter (\<lambda>bits. \<not> has_forbidden_substring bits (forbidden_pattern c))
            (map (format_0b (cube_n c)) [0..<2 ^ cube_n c])"

text \<open>
  The properties \<open>vertices\<close> and \<open>vertex_set\<close> cache the result of
  \<open>_generate_vertices\<close>, which depends on \<open>n\<close> and \<open>s\<close> only; \<open>__contains__\<close> and
  \<open>__len__\<close> read them.
\<close>

definition vertices :: "cube \<Rightarrow> string list" where
  "vertices c = generate_vertices c"

definition vertex_set :: "cube \<Rightarrow> string set" where
  "vertex_set c = set (vertices c)"

definition contains :: "cube \<Rightarrow> string \<Rightarrow> bool" where
  "contains c bits = (bits \<in> vertex_set c)"

definition len_cube :: "cube \<Rightarrow> nat" where
  "len_cube c = length (vertices c)"

text \<open>
  \<open>get_neighbors(bits)\<close>: for each \<open>i\<close> in \<open>range(self.n)\<close> the character at \<open>i\<close> is
  replaced by \<open>'1' if bits[i] == '0' else '0'\<close>; \<open>bits[i]\<close> raises \<open>IndexError\<close> when
  \<open>bits\<close> has fewer than \<open>i + 1\<close> characters.  The flipped string is appended when it is
  in the cube.
\<close>

definition flip_bit :: "char \<Rightarrow> char" where
  "flip_bit b = (if b = CHR ''0'' then CHR ''1'' else CHR ''0'')"

fun get_neighbors_loop :: "cube \<Rightarrow> string \<Rightarrow> nat list \<Rightarrow> string list \<Rightarrow> py_error + string list" where
  "get_neighbors_loop c bits [] neighbors = Inr neighbors"
| "get_neighbors_loop c bits (i # rest) neighbors =
     (if i < length bits then
        (let neighbor = bits[i := flip_bit (bits ! i)] in
         get_neighbors_loop c bits rest
           (if contains c neighbor then neighbors @ [neighbor] else neighbors))
      else Inl IndexError)"

definition get_neighbors :: "cube \<Rightarrow> string \<Rightarrow> py_error + string list" where
  "get_neighbors c bits = get_neighbors_loop c bits [0..<cube_n c] []"

definition get_closed_neighborhood :: "cube \<Rightarrow> string \<Rightarrow> py_error + string list" where
  "get_closed_neighborhood c bits =
     (if \<not> contains c bits then Inr []
      else case get_neighbors c bits of
             Inl e \<Rightarrow> Inl e
           | Inr neighbors \<Rightarrow> Inr (bits # neighbors))"

section \<open>Code utilities (core/code\_utils.py)\<close>


definition get_hamming_distance :: "string \<Rightarrow> string \<Rightarrow> py_error + nat" where
  "get_hamming_distance s1 s2 =
     (if length s1 \<noteq> length s2 then Inl ValueError
      else Inr (length (filter (\<lambda>(c1, c2). c1 \<noteq> c2) (zip s1 s2))))"


section \<open>The verifier (core/search\_utils.py)\<close>

text \<open>
  \<open>PerfectCodeSearcher(cube)\<close> keeps the cube, \<open>self.n = cube.n\<close> and
  \<open>self.V = cube.vertex_set\<close>; the model passes the cube.  \<open>covered_vertices\<close> is a
  Python set that is only tested for disjointness, extended, and compared with \<open>self.V\<close>.
\<close>

fun is_perfect_code_loop :: "cube \<Rightarrow> string list \<Rightarrow> string set \<Rightarrow> py_error + bool" where
  "is_perfect_code_loop c [] covered_vertices = Inr (covered_vertices = vertex_set c)"
| "is_perfect_code_loop c (codeword # rest) covered_vertices =
     (if codeword \<notin> vertex_set c then Inr False
      else case get_neighbors c codeword of
             Inl e \<Rightarrow> Inl e
           | Inr neighbors \<Rightarrow>
               (let neighborhood = insert codeword (set neighbors) in
                if covered_vertices \<inter> neighborhood \<noteq> {} then Inr False
                else is_perfect_code_loop c rest (covered_vertices \<union> neighborhood)))"

definition is_perfect_code :: "cube \<Rightarrow> string list \<Rightarrow> py_error + bool" where
  "is_perfect_code c C = (if C = [] then Inr False else is_perfect_code_loop c C {})"

text \<open>
  \<open>get_theoretical_code_size\<close>: Python's true division of two integers.  Floating-point
  values are modelled as real numbers throughout.
\<close>

definition get_theoretical_code_size :: "cube \<Rightarrow> real" where
  "get_theoretical_code_size c = real (card (vertex_set c)) / real (cube_n c + 1)"

section \<open>Randomness and list helpers\<close>

text \<open>
  The engines draw from Python's \<open>random\<close> module, which is not code of this repository.
  Its generator is modelled as an arbitrary infinite sequence of natural numbers together
  with the position of the next draw; each call consumes draws and returns the advanced
  generator.  Every theorem about the engines holds for every such sequence.
  \<^item> \<open>random()\<close> returns a multiple of \<open>2\<^sup>-\<^sup>5\<^sup>3\<close> in \<open>[0, 1)\<close>;
  \<^item> \<open>randrange(k)\<close> raises \<open>ValueError\<close> for \<open>k \<le> 0\<close> and returns a number below \<open>k\<close>
    otherwise; \<open>randint(a, b)\<close> is \<open>a + randrange(b + 1 - a)\<close>;
  \<^item> \<open>choice(seq)\<close> raises \<open>IndexError\<close> on an empty sequence;
  \<^item> \<open>sample(population, k)\<close> raises \<open>ValueError\<close> unless \<open>0 \<le> k \<le> len(population)\<close>
    and selects \<open>k\<close> positions without replacement (the pool algorithm of CPython);
  \<^item> \<open>choices(population, weights, k)\<close> accumulates the weights, raises \<open>ValueError\<close>
    when their number differs from the population's or their total is not positive, and
    selects by bisection in the cumulative weights.
\<close>

record rng =
  rng_draws :: "nat \<Rightarrow> nat"
  rng_pos :: nat

definition next_draw :: "rng \<Rightarrow> nat \<times> rng" where
  "next_draw g = (rng_draws g (rng_pos g), g\<lparr>rng_pos := rng_pos g + 1\<rparr>)"

definition random_random :: "rng \<Rightarrow> real \<times> rng" where
  "random_random g = (let (d, g') = next_draw g in (real (d mod 2 ^ 53) / 2 ^ 53, g'))"

definition randrange :: "int \<Rightarrow> rng \<Rightarrow> py_error + (nat \<times> rng)" where
  "randrange k g =
     (if k \<le> 0 then Inl ValueError
      else let (d, g') = next_draw g in Inr (d mod nat k, g'))"

definition randint :: "int \<Rightarrow> int \<Rightarrow> rng \<Rightarrow> py_error + (int \<times> rng)" where
  "randint a b g =
     (case randrange (b + 1 - a) g of
        Inl e \<Rightarrow> Inl e
      | Inr (r, g') \<Rightarrow> Inr (a + int r, g'))"

definition random_choice :: "'a list \<Rightarrow> rng \<Rightarrow> py_error + ('a \<times> rng)" where
  "random_choice seq g =
     (if seq = [] then Inl IndexError
      else let (d, g') = next_draw g in Inr (seq ! (d mod length seq), g'))"

fun sample_loop :: "'a list \<Rightarrow> nat \<Rightarrow> rng \<Rightarrow> 'a list \<times> rng" where
  "sample_loop pool 0 g = ([], g)"
| "sample_loop pool (Suc k) g =
     (let (d, g1) = next_draw g;
          j = d mod length pool;
          (result, g2) = sample_loop (butlast (pool[j := last pool])) k g1
      in (pool ! j # result, g2))"

definition random_sample :: "'a list \<Rightarrow> int \<Rightarrow> rng \<Rightarrow> py_error + ('a list \<times> rng)" where
  "random_sample population k g =
     (if \<not> (0 \<le> k \<and> k \<le> int (length population)) then Inl ValueError
      else Inr (sample_loop population (nat k) g))"

text \<open>\<open>itertools.accumulate\<close> and \<open>bisect.bisect_right(a, x, lo, hi)\<close>.\<close>

fun accumulate :: "real \<Rightarrow> real list \<Rightarrow> real list" where
  "accumulate acc [] = []"
| "accumulate acc (w # ws) = (acc + w) # accumulate (acc + w) ws"

function bisect :: "real list \<Rightarrow> real \<Rightarrow> nat \<Rightarrow> nat \<Rightarrow> nat" where
  "bisect a x lo hi =
     (if lo < hi then
        (let mid = (lo + hi) div 2 in
         if x < a ! mid then bisect a x lo mid else bisect a x (mid + 1) hi)
      else lo)"
  by pat_completeness auto
termination
  by (relation "measure (\<lambda>(a, x, lo, hi). hi - lo)") auto

declare bisect.simps [simp del]

fun choices_loop :: "'a list \<Rightarrow> real list \<Rightarrow> real \<Rightarrow> nat \<Rightarrow> rng \<Rightarrow> 'a list \<times> rng" where
  "choices_loop population cum_weights tot 0 g = ([], g)"
| "choices_loop population cum_weights tot (Suc k) g =
     (let (u, g1) = random_random g;
          x = population ! bisect cum_weights (u * tot) 0 (length population - 1);
          (result, g2) = choices_loop population cum_weights tot k g1
      in (x # result, g2))"

definition random_choices :: "'a list \<Rightarrow> real list \<Rightarrow> int \<Rightarrow> rng \<Rightarrow> py_error + ('a list \<times> rng)" where
  "random_choices population weights k g =
     (let cum_weights = accumulate 0 weights in
      if length cum_weights \<noteq> length population then Inl ValueError
      else if cum_weights = [] then Inl IndexError
      else let tot = last cum_weights in
           if tot \<le> 0 then Inl ValueError
           else Inr (choices_loop population cum_weights tot (nat k) g))"

text \<open>
  \<open>xs[i]\<close> for a non-negative index, \<open>xs[:k]\<close>, \<open>xs.index(x)\<close> (used only where \<open>x\<close>
  occurs), \<open>max(xs)\<close> and \<open>xs.pop(i)\<close>.
\<close>

definition list_index :: "'a list \<Rightarrow> nat \<Rightarrow> py_error + 'a" where
  "list_index xs i = (if i < length xs then Inr (xs ! i) else Inl IndexError)"

definition py_take :: "int \<Rightarrow> 'a list \<Rightarrow> 'a list" where
  "py_take k xs = (if 0 \<le> k then take (nat k) xs else take (length xs - nat (- k)) xs)"

definition first_index :: "'a list \<Rightarrow> 'a \<Rightarrow> nat" where
  "first_index xs x = length (takeWhile (\<lambda>y. y \<noteq> x) xs)"

definition py_max :: "int list \<Rightarrow> py_error + int" where
  "py_max xs = (case xs of [] \<Rightarrow> Inl ValueError | y # ys \<Rightarrow> Inr (fold max ys y))"

definition list_pop :: "'a list \<Rightarrow> nat \<Rightarrow> 'a list" where
  "list_pop xs i = take i xs @ drop (Suc i) xs"

text \<open>
  \<open>sorted(zip(fitnesses, population), key=lambda pair: pair[0], reverse=True)\<close>: a stable
  sort by decreasing fitness, of which the individuals are kept.
\<close>

definition sorted_by_fitness :: "int list \<Rightarrow> 'a list \<Rightarrow> 'a list" where
  "sorted_by_fitness fitnesses population =
     map snd (sort_key (\<lambda>pair. - fst pair) (zip fitnesses population))"

text \<open>
  A Python \<open>set\<close> that the code turns back into a list is modelled as a list without
  duplicates; Python leaves the iteration order of a set unspecified, and the model
  takes the order of insertion.
\<close>

definition set_add :: "'a list \<Rightarrow> 'a \<Rightarrow> 'a list" where
  "set_add xs x = (if x \<in> set xs then xs else xs @ [x])"

definition set_remove :: "'a list \<Rightarrow> 'a \<Rightarrow> 'a list" where
  "set_remove xs x = removeAll x xs"

definition set_minus :: "'a list \<Rightarrow> 'a list \<Rightarrow> 'a list" where
  "set_minus xs ys = filter (\<lambda>x. x \<notin> set ys) xs"

text \<open>Running a fallible function over a list, left to right, stopping at the first error.\<close>

fun map_err :: "('a \<Rightarrow> py_error + 'b) \<Rightarrow> 'a list \<Rightarrow> py_error + 'b list" where
  "map_err f [] = Inr []"
| "map_err f (x # xs) =
     (case f x of
        Inl e \<Rightarrow> Inl e
      | Inr y \<Rightarrow> (case map_err f xs of Inl e \<Rightarrow> Inl e | Inr ys \<Rightarrow> Inr (y # ys)))"

section \<open>Genetic algorithm (ga\_solver/ga\_search.py)\<close>

text \<open>
  The fields set by \<open>GeneticAlgorithmSearch.__init__\<close>; \<open>self.searcher\<close> is the verifier
  of \<open>self.cube\<close>.  Console output is not modelled.
\<close>

record ga =
  ga_cube :: cube
  ga_population_size :: int
  ga_generations :: int
  ga_mutation_rate :: real
  ga_elitism_k :: int
  ga_n :: nat
  ga_theoretical_size :: int

definition GeneticAlgorithmSearch ::
    "int \<Rightarrow> int \<Rightarrow> int \<Rightarrow> int \<Rightarrow> real \<Rightarrow> int \<Rightarrow> py_error + ga" where
  "GeneticAlgorithmSearch n s population_size generations mutation_rate elitism_k =
     (case GeneralizedLucasCube n s of
        Inl e \<Rightarrow> Inl e
      | Inr c \<Rightarrow>
          Inr \<lparr>ga_cube = c, ga_population_size = population_size,
               ga_generations = generations, ga_mutation_rate = mutation_rate,
               ga_elitism_k = elitism_k, ga_n = nat n,
               ga_theoretical_size = (int (length (vertices c)) + n) div (n + 1)\<rparr>)"

text \<open>\<open>_calculate_fitness\<close>: the loop keeps \<open>covered_vertices\<close> and \<open>collisions\<close>.\<close>

fun ga_fitness_loop ::
    "cube \<Rightarrow> string list \<Rightarrow> string set \<Rightarrow> nat \<Rightarrow> py_error + (string set \<times> nat)" where
  "ga_fitness_loop c [] covered_vertices collisions = Inr (covered_vertices, collisions)"
| "ga_fitness_loop c (codeword # rest) covered_vertices collisions =
     (case get_neighbors c codeword of
        Inl e \<Rightarrow> Inl e
      | Inr neighbors \<Rightarrow>
          (let neighborhood = insert codeword (set neighbors) in
           ga_fitness_loop c rest (covered_vertices \<union> neighborhood)
             (if covered_vertices \<inter> neighborhood \<noteq> {} then collisions + 1 else collisions)))"

definition ga_calculate_fitness :: "ga \<Rightarrow> string list \<Rightarrow> py_error + int" where
  "ga_calculate_fitness g code =
     (case ga_fitness_loop (ga_cube g) code {} 0 of
        Inl e \<Rightarrow> Inl e
      | Inr (covered_vertices, collisions) \<Rightarrow>
          Inr (int (card covered_vertices) - int collisions * (int (ga_n g) + 1) * 10))"

fun ga_initialize_loop ::
    "ga \<Rightarrow> nat \<Rightarrow> string list list \<Rightarrow> rng \<Rightarrow> py_error + (string list list \<times> rng)" where
  "ga_initialize_loop g 0 population r = Inr (population, r)"
| "ga_initialize_loop g (Suc k) population r =
     (case random_sample (vertices (ga_cube g)) (ga_theoretical_size g) r of
        Inl e \<Rightarrow> Inl e
      | Inr (candidate, r') \<Rightarrow> ga_initialize_loop g k (population @ [candidate]) r')"

definition ga_initialize_population :: "ga \<Rightarrow> rng \<Rightarrow> py_error + (string list list \<times> rng)" where
  "ga_initialize_population g r = ga_initialize_loop g (nat (ga_population_size g)) [] r"

text \<open>\<open>_selection\<close>: one binary tournament for each member of the population.\<close>

fun ga_selection_loop ::
    "nat \<Rightarrow> string list list \<Rightarrow> int list \<Rightarrow> string list list \<Rightarrow> rng
     \<Rightarrow> py_error + (string list list \<times> rng)" where
  "ga_selection_loop 0 population fitnesses selected r = Inr (selected, r)"
| "ga_selection_loop (Suc k) population fitnesses selected r =
     (case randrange (int (length population)) r of
        Inl e \<Rightarrow> Inl e
      | Inr (i, r1) \<Rightarrow>
     (case randrange (int (length population)) r1 of
        Inl e \<Rightarrow> Inl e
      | Inr (j, r2) \<Rightarrow>
     (case list_index fitnesses i of
        Inl e \<Rightarrow> Inl e
      | Inr fi \<Rightarrow>
     (case list_index fitnesses j of
        Inl e \<Rightarrow> Inl e
      | Inr fj \<Rightarrow>
     (case list_index population (if fi > fj then i else j) of
        Inl e \<Rightarrow> Inl e
      | Inr winner \<Rightarrow>
          ga_selection_loop k population fitnesses (selected @ [winner]) r2)))))"

definition ga_selection ::
    "string list list \<Rightarrow> int list \<Rightarrow> rng \<Rightarrow> py_error + (string list list \<times> rng)" where
  "ga_selection population fitnesses r =
     ga_selection_loop (length population) population fitnesses [] r"

text \<open>\<open>_crossover\<close>: the gene pool is the union of the parents, as a list.\<close>

fun ga_crossover_loop ::
    "string list \<Rightarrow> string list \<Rightarrow> string list \<Rightarrow> string list \<Rightarrow> rng \<Rightarrow> string list \<times> rng" where
  "ga_crossover_loop parent1 parent2 [] child r = (child, r)"
| "ga_crossover_loop parent1 parent2 (gene # rest) child r =
     (let (u, r') = random_random r in
      if u < 0.5 then
        ga_crossover_loop parent1 parent2 rest
          (if gene \<in> set parent1 then child @ [gene] else child) r'
      else
        ga_crossover_loop parent1 parent2 rest
          (if gene \<in> set parent2 then child @ [gene] else child) r')"

definition ga_crossover :: "string list \<Rightarrow> string list \<Rightarrow> rng \<Rightarrow> string list \<times> rng" where
  "ga_crossover parent1 parent2 r =
     ga_crossover_loop parent1 parent2 (remdups (parent1 @ parent2)) [] r"

text \<open>
  \<open>_mutate\<close>: in \<open>len(code) > 1 and random.random() < 0.5\<close> the second draw happens
  only when the code has more than one codeword.
\<close>

definition ga_mutate :: "ga \<Rightarrow> string list \<Rightarrow> rng \<Rightarrow> py_error + (string list \<times> rng)" where
  "ga_mutate g code r =
     (let (u, r1) = random_random r in
      if u < ga_mutation_rate g then
        (let (remove, r2) =
               (if length code > 1 then (let (v, r') = random_random r1 in (v < 0.5, r'))
                else (False, r1)) in
         if remove then
           (case randrange (int (length code)) r2 of
              Inl e \<Rightarrow> Inl e
            | Inr (i, r3) \<Rightarrow> Inr (list_pop code i, r3))
         else
           (case random_choice (vertices (ga_cube g)) r2 of
              Inl e \<Rightarrow> Inl e
            | Inr (new_gene, r3) \<Rightarrow>
                Inr (if new_gene \<notin> set code then code @ [new_gene] else code, r3)))
      else Inr (code, r1))"

text \<open>
  The \<open>while len(new_population) < self.population_size\<close> loop of \<open>run\<close>; every
  iteration appends one child.
\<close>

function ga_fill ::
    "ga \<Rightarrow> string list list \<Rightarrow> string list list \<Rightarrow> rng
     \<Rightarrow> py_error + (string list list \<times> rng)" where
  "ga_fill g selected_parents new_population r =
     (if int (length new_population) < ga_population_size g then
        (case random_sample selected_parents 2 r of
           Inl e \<Rightarrow> Inl e
         | Inr (parents, r1) \<Rightarrow>
             (let (child, r2) = ga_crossover (parents ! 0) (parents ! 1) r1 in
              case ga_mutate g child r2 of
                Inl e \<Rightarrow> Inl e
              | Inr (child', r3) \<Rightarrow>
                  ga_fill g selected_parents (new_population @ [child']) r3))
      else Inr (new_population, r))"
  by pat_completeness auto
termination
  by (relation "measure (\<lambda>(g, sel, new_population, r).
        nat (ga_population_size g - int (length new_population)))") auto

declare ga_fill.simps [simp del]

text \<open>
  One pass of the \<open>for gen in range(self.generations)\<close> loop.  The result is \<open>Inl\<close> of
  the returned code when the pass returns from \<open>run\<close>, and \<open>Inr\<close> of the next
  population otherwise.
\<close>

definition ga_reproduce ::
    "ga \<Rightarrow> string list list \<Rightarrow> int list \<Rightarrow> rng \<Rightarrow> py_error + (string list list \<times> rng)" where
  "ga_reproduce g population fitnesses r =
     (let new_population = py_take (ga_elitism_k g) (sorted_by_fitness fitnesses population) in
      case ga_selection population fitnesses r of
        Inl e \<Rightarrow> Inl e
      | Inr (selected_parents, r1) \<Rightarrow> ga_fill g selected_parents new_population r1)"

definition ga_generation ::
    "ga \<Rightarrow> string list list \<Rightarrow> rng
     \<Rightarrow> py_error + (string list + (string list list \<times> rng))" where
  "ga_generation g population r =
     (case map_err (ga_calculate_fitness g) population of
        Inl e \<Rightarrow> Inl e
      | Inr fitnesses \<Rightarrow>
     (case py_max fitnesses of
        Inl e \<Rightarrow> Inl e
      | Inr best_fitness_in_gen \<Rightarrow>
     (case list_index population (first_index fitnesses best_fitness_in_gen) of
        Inl e \<Rightarrow> Inl e
      | Inr final_code \<Rightarrow>
     (case (if best_fitness_in_gen \<ge> int (length (vertices (ga_cube g)))
            then is_perfect_code (ga_cube g) final_code else Inr False) of
        Inl e \<Rightarrow> Inl e
      | Inr True \<Rightarrow> Inr (Inl final_code)
      | Inr False \<Rightarrow>
          (case ga_reproduce g population fitnesses r of
             Inl e \<Rightarrow> Inl e
           | Inr next \<Rightarrow> Inr (Inr next))))))"

fun ga_run_loop ::
    "ga \<Rightarrow> nat \<Rightarrow> string list list \<Rightarrow> rng \<Rightarrow> py_error + string list option" where
  "ga_run_loop g 0 population r = Inr None"
| "ga_run_loop g (Suc k) population r =
     (case ga_generation g population r of
        Inl e \<Rightarrow> Inl e
      | Inr (Inl final_code) \<Rightarrow> Inr (Some final_code)
      | Inr (Inr (population', r')) \<Rightarrow> ga_run_loop g k population' r')"

definition ga_run :: "ga \<Rightarrow> rng \<Rightarrow> py_error + string list option" where
  "ga_run g r =
     (case ga_initialize_population g r of
        Inl e \<Rightarrow> Inl e
      | Inr (population, r') \<Rightarrow> ga_run_loop g (nat (ga_generations g)) population r')"

section \<open>Memetic algorithm (ga\_solver/memetic\_search.py)\<close>

record ma =
  ma_cube :: cube
  ma_population_size :: int
  ma_generations :: int
  ma_mutation_rate :: real
  ma_elitism_k :: int
  ma_local_search_steps :: int
  ma_n :: nat
  ma_theoretical_size :: int

definition MemeticAlgorithmSearch ::
    "int \<Rightarrow> int \<Rightarrow> int \<Rightarrow> int \<Rightarrow> real \<Rightarrow> int \<Rightarrow> int \<Rightarrow> py_error + ma" where
  "MemeticAlgorithmSearch n s population_size generations mutation_rate elitism_k
       local_search_steps =
     (case GeneralizedLucasCube n s of
        Inl e \<Rightarrow> Inl e
      | Inr c \<Rightarrow>
          Inr \<lparr>ma_cube = c, ma_population_size = population_size,
               ma_generations = generations, ma_mutation_rate = mutation_rate,
               ma_elitism_k = elitism_k, ma_local_search_steps = local_search_steps,
               ma_n = nat n,
               ma_theoretical_size = (int (length (vertices c)) + n) div (n + 1)\<rparr>)"

text \<open>\<open>sum(1 for i, j in zip(cw1, cw2) if i != j)\<close>\<close>

definition zip_distance :: "string \<Rightarrow> string \<Rightarrow> nat" where
  "zip_distance cw1 cw2 = length (filter (\<lambda>(i, j). i \<noteq> j) (zip cw1 cw2))"

fun ma_fitness_loop ::
    "cube \<Rightarrow> string list \<Rightarrow> string list \<Rightarrow> string set \<Rightarrow> nat
     \<Rightarrow> py_error + (string set \<times> nat)" where
  "ma_fitness_loop c code_set [] covered_vertices collisions =
     Inr (covered_vertices, collisions)"
| "ma_fitness_loop c code_set (codeword # rest) covered_vertices collisions =
     (case get_neighbors c codeword of
        Inl e \<Rightarrow> Inl e
      | Inr neighbors \<Rightarrow>
          ma_fitness_loop c code_set rest
            (covered_vertices \<union> insert codeword (set neighbors))
            (collisions +
               length (filter (\<lambda>other_cw. codeword \<noteq> other_cw \<and>
                                  zip_distance codeword other_cw < 3) code_set)))"

definition ma_calculate_fitness :: "ma \<Rightarrow> string list \<Rightarrow> py_error + (int \<times> nat \<times> nat)" where
  "ma_calculate_fitness m code =
     (case ma_fitness_loop (ma_cube m) (remdups code) code {} 0 of
        Inl e \<Rightarrow> Inl e
      | Inr (covered_vertices, collisions) \<Rightarrow>
          (let uncovered_count = card (vertex_set (ma_cube m) - covered_vertices) in
           Inr (int (card covered_vertices) - int uncovered_count * int (ma_n m)
                  - int (collisions div 2) * int (ma_n m) * 10,
                uncovered_count, collisions div 2)))"

text \<open>
  \<open>_local_search_optimizer\<close>.  Strings are compared as Python compares them,
  lexicographically by character code.
\<close>

definition colliding_pairs :: "string list \<Rightarrow> (string \<times> string) list" where
  "colliding_pairs current_code =
     [(cw1, cw2). cw1 \<leftarrow> current_code, cw2 \<leftarrow> current_code,
                  \<not> cw1 \<ge> cw2, zip_distance cw1 cw2 < 3]"

definition ma_local_search_step ::
    "ma \<Rightarrow> string list \<Rightarrow> rng \<Rightarrow> py_error + (string list \<times> rng)" where
  "ma_local_search_step m current_code r =
     (if colliding_pairs current_code \<noteq> [] then
        (case random_choice (colliding_pairs current_code) r of
           Inl e \<Rightarrow> Inl e
         | Inr (pair, r1) \<Rightarrow>
        (case random_choice [fst pair, snd pair] r1 of
           Inl e \<Rightarrow> Inl e
         | Inr (cw_to_remove, r2) \<Rightarrow> Inr (set_remove current_code cw_to_remove, r2)))
      else
        (case map_err (get_closed_neighborhood (ma_cube m)) current_code of
           Inl e \<Rightarrow> Inl e
         | Inr neighborhoods \<Rightarrow>
             (let uncovered = set_minus (vertices (ma_cube m)) (concat neighborhoods) in
              if uncovered \<noteq> [] then
                (case random_choice uncovered r of
                   Inl e \<Rightarrow> Inl e
                 | Inr (vertex_to_cover, r1) \<Rightarrow>
                (case get_closed_neighborhood (ma_cube m) vertex_to_cover of
                   Inl e \<Rightarrow> Inl e
                 | Inr potential_adds \<Rightarrow>
                     if potential_adds \<noteq> [] then
                       (case random_choice potential_adds r1 of
                          Inl e \<Rightarrow> Inl e
                        | Inr (x, r2) \<Rightarrow> Inr (set_add current_code x, r2))
                     else Inr (current_code, r1)))
              else Inr (current_code, r))))"

fun ma_local_search_loop ::
    "ma \<Rightarrow> nat \<Rightarrow> string list \<Rightarrow> rng \<Rightarrow> py_error + (string list \<times> rng)" where
  "ma_local_search_loop m 0 current_code r = Inr (current_code, r)"
| "ma_local_search_loop m (Suc k) current_code r =
     (case ma_local_search_step m current_code r of
        Inl e \<Rightarrow> Inl e
      | Inr (current_code', r') \<Rightarrow> ma_local_search_loop m k current_code' r')"

definition ma_local_search_optimizer ::
    "ma \<Rightarrow> string list \<Rightarrow> rng \<Rightarrow> py_error + (string list \<times> rng)" where
  "ma_local_search_optimizer m code r =
     ma_local_search_loop m (nat (ma_local_search_steps m)) (remdups code) r"

fun ma_initialize_loop ::
    "ma \<Rightarrow> nat \<Rightarrow> rng \<Rightarrow> py_error + (string list list \<times> rng)" where
  "ma_initialize_loop m 0 r = Inr ([], r)"
| "ma_initialize_loop m (Suc k) r =
     (case random_sample (vertices (ma_cube m)) (ma_theoretical_size m) r of
        Inl e \<Rightarrow> Inl e
      | Inr (candidate, r1) \<Rightarrow>
          (case ma_initialize_loop m k r1 of
             Inl e \<Rightarrow> Inl e
           | Inr (population, r2) \<Rightarrow> Inr (candidate # population, r2)))"

definition ma_initialize_population :: "ma \<Rightarrow> rng \<Rightarrow> py_error + (string list list \<times> rng)" where
  "ma_initialize_population m r = ma_initialize_loop m (nat (ma_population_size m)) r"

text \<open>\<open>_selection\<close>: fitness-proportional, or uniform when the fitnesses sum to zero.\<close>

fun choice_loop :: "'a list \<Rightarrow> nat \<Rightarrow> rng \<Rightarrow> py_error + ('a list \<times> rng)" where
  "choice_loop population 0 r = Inr ([], r)"
| "choice_loop population (Suc k) r =
     (case random_choice population r of
        Inl e \<Rightarrow> Inl e
      | Inr (x, r1) \<Rightarrow>
          (case choice_loop population k r1 of
             Inl e \<Rightarrow> Inl e
           | Inr (xs, r2) \<Rightarrow> Inr (x # xs, r2)))"

definition ma_selection ::
    "ma \<Rightarrow> string list list \<Rightarrow> (int \<times> nat \<times> nat) list \<Rightarrow> rng
     \<Rightarrow> py_error + (string list list \<times> rng)" where
  "ma_selection m population fitnesses r =
     (let total_fitness = sum_list (map fst fitnesses) in
      if total_fitness = 0 then choice_loop population (length population) r
      else random_choices population
             (map (\<lambda>f. real_of_int (fst f) / real_of_int total_fitness) fitnesses)
             (ma_population_size m) r)"

definition ma_crossover ::
    "string list \<Rightarrow> string list \<Rightarrow> rng \<Rightarrow> py_error + (string list \<times> rng)" where
  "ma_crossover parent1 parent2 r =
     (case randint 1 (int (min (length parent1) (length parent2)) - 1) r of
        Inl e \<Rightarrow> Inl e
      | Inr (point, r') \<Rightarrow> Inr (take (nat point) parent1 @ drop (nat point) parent2, r'))"

definition ma_mutate :: "ma \<Rightarrow> string list \<Rightarrow> rng \<Rightarrow> py_error + (string list \<times> rng)" where
  "ma_mutate m code r =
     (let (u, r1) = random_random r in
      if u < ma_mutation_rate m then
        (let (remove, r2) =
               (if code \<noteq> [] then (let (v, r') = random_random r1 in (v < 0.5, r'))
                else (False, r1)) in
         if remove then
           (case randrange (int (length code)) r2 of
              Inl e \<Rightarrow> Inl e
            | Inr (i, r3) \<Rightarrow> Inr (list_pop code i, r3))
         else
           (case random_choice (vertices (ma_cube m)) r2 of
              Inl e \<Rightarrow> Inl e
            | Inr (new_gene, r3) \<Rightarrow> Inr (code @ [new_gene], r3)))
      else Inr (code, r1))"

function ma_fill ::
    "ma \<Rightarrow> string list list \<Rightarrow> string list list \<Rightarrow> rng
     \<Rightarrow> py_error + (string list list \<times> rng)" where
  "ma_fill m selected new_population r =
     (if int (length new_population) < ma_population_size m then
        (case random_sample selected 2 r of
           Inl e \<Rightarrow> Inl e
         | Inr (parents, r1) \<Rightarrow>
        (case ma_crossover (parents ! 0) (parents ! 1) r1 of
           Inl e \<Rightarrow> Inl e
         | Inr (child, r2) \<Rightarrow>
        (case ma_mutate m child r2 of
           Inl e \<Rightarrow> Inl e
         | Inr (child', r3) \<Rightarrow>
        (case ma_local_search_optimizer m child' r3 of
           Inl e \<Rightarrow> Inl e
         | Inr (child'', r4) \<Rightarrow>
             ma_fill m selected (new_population @ [child'']) r4))))
      else Inr (new_population, r))"
  by pat_completeness auto
termination
  by (relation "measure (\<lambda>(m, sel, new_population, r).
        nat (ma_population_size m - int (length new_population)))") auto

declare ma_fill.simps [simp del]

definition ma_reproduce ::
    "ma \<Rightarrow> string list list \<Rightarrow> (int \<times> nat \<times> nat) list \<Rightarrow> rng
     \<Rightarrow> py_error + (string list list \<times> rng)" where
  "ma_reproduce m population fitness_data r =
     (let new_population =
            py_take (ma_elitism_k m) (sorted_by_fitness (map fst fitness_data) population) in
      case ma_selection m population fitness_data r of
        Inl e \<Rightarrow> Inl e
      | Inr (selected, r1) \<Rightarrow> ma_fill m selected new_population r1)"

definition ma_generation ::
    "ma \<Rightarrow> string list list \<Rightarrow> rng
     \<Rightarrow> py_error + (string list + (string list list \<times> rng))" where
  "ma_generation m population r =
     (case map_err (ma_calculate_fitness m) population of
        Inl e \<Rightarrow> Inl e
      | Inr fitness_data \<Rightarrow>
     (case py_max (map fst fitness_data) of
        Inl e \<Rightarrow> Inl e
      | Inr best \<Rightarrow>
     (let best_idx = first_index (map fst fitness_data) best in
      case list_index fitness_data best_idx of
        Inl e \<Rightarrow> Inl e
      | Inr (best_fitness, uncovered, collisions) \<Rightarrow>
     (case (if uncovered = 0 \<and> collisions = 0
            then (case list_index population best_idx of
                    Inl e \<Rightarrow> Inl e
                  | Inr final_code \<Rightarrow>
                      (case is_perfect_code (ma_cube m) final_code of
                         Inl e \<Rightarrow> Inl e
                       | Inr ok \<Rightarrow> Inr (if ok then Some final_code else None)))
            else Inr None) of
        Inl e \<Rightarrow> Inl e
      | Inr (Some final_code) \<Rightarrow> Inr (Inl final_code)
      | Inr None \<Rightarrow>
          (case ma_reproduce m population fitness_data r of
             Inl e \<Rightarrow> Inl e
           | Inr next \<Rightarrow> Inr (Inr next))))))"

fun ma_run_loop ::
    "ma \<Rightarrow> nat \<Rightarrow> string list list \<Rightarrow> rng \<Rightarrow> py_error + string list option" where
  "ma_run_loop m 0 population r = Inr None"
| "ma_run_loop m (Suc k) population r =
     (case ma_generation m population r of
        Inl e \<Rightarrow> Inl e
      | Inr (Inl final_code) \<Rightarrow> Inr (Some final_code)
      | Inr (Inr (population', r')) \<Rightarrow> ma_run_loop m k population' r')"

definition ma_run :: "ma \<Rightarrow> rng \<Rightarrow> py_error + string list option" where
  "ma_run m r =
     (case ma_initialize_population m r of
        Inl e \<Rightarrow> Inl e
      | Inr (population, r') \<Rightarrow> ma_run_loop m (nat (ma_generations m)) population r')"

section \<open>Simulated annealing (strategies/strategy\_4\_simulated\_annealing.py)\<close>

record sa =
  sa_cube :: cube
  sa_n :: nat
  sa_s :: nat
  sa_initial_temp :: real
  sa_cooling_rate :: real
  sa_max_iterations :: int
  sa_collision_penalty :: real
  sa_theoretical_size :: real

definition SimulatedAnnealingSearch ::
    "int \<Rightarrow> int \<Rightarrow> real \<Rightarrow> real \<Rightarrow> int \<Rightarrow> real \<Rightarrow> py_error + sa" where
  "SimulatedAnnealingSearch n s initial_temp cooling_rate max_iterations collision_penalty =
     (case GeneralizedLucasCube n s of
        Inl e \<Rightarrow> Inl e
      | Inr c \<Rightarrow>
          Inr \<lparr>sa_cube = c, sa_n = nat n, sa_s = nat s, sa_initial_temp = initial_temp,
               sa_cooling_rate = cooling_rate, sa_max_iterations = max_iterations,
               sa_collision_penalty = collision_penalty,
               sa_theoretical_size = get_theoretical_code_size c\<rparr>)"

text \<open>
  \<open>_calculate_energy\<close>: the collisions are counted first (\<open>get_hamming_distance\<close> raises
  on strings of different lengths), then the uncovered vertices.
\<close>

definition sa_calculate_energy :: "sa \<Rightarrow> string list \<Rightarrow> py_error + (real \<times> nat \<times> nat)" where
  "sa_calculate_energy a code =
     (let code_set = remdups code in
      case map_err (\<lambda>(cw1, cw2). get_hamming_distance cw1 cw2)
             [(cw1, cw2). cw1 \<leftarrow> code_set, cw2 \<leftarrow> code_set, \<not> cw1 \<ge> cw2] of
        Inl e \<Rightarrow> Inl e
      | Inr distances \<Rightarrow>
     (let collisions = length (filter (\<lambda>d. d < 3) distances) in
      case map_err (get_closed_neighborhood (sa_cube a)) code_set of
        Inl e \<Rightarrow> Inl e
      | Inr neighborhoods \<Rightarrow>
          (let uncovered_count = card (vertex_set (sa_cube a) - set (concat neighborhoods)) in
           Inr (real uncovered_count * real (sa_n a) + real collisions * sa_collision_penalty a,
                uncovered_count, collisions))))"

datatype action = Add | Remove | Swap

text \<open>\<open>_get_neighbor\<close>: the \<open>if\<close>/\<open>elif\<close> chain on the drawn action, then the repair of an
  empty code.\<close>

definition sa_apply_action ::
    "sa \<Rightarrow> action \<Rightarrow> string list \<Rightarrow> rng \<Rightarrow> py_error + (string list \<times> rng)" where
  "sa_apply_action a act neighbor r =
     (if act = Add \<and> real (length neighbor) < sa_theoretical_size a + 2 then
        (let potential_adds = set_minus (vertices (sa_cube a)) neighbor in
         if potential_adds \<noteq> [] then
           (case random_choice potential_adds r of
              Inl e \<Rightarrow> Inl e
            | Inr (x, r1) \<Rightarrow> Inr (set_add neighbor x, r1))
         else Inr (neighbor, r))
      else if act = Remove \<and> real (length neighbor) > sa_theoretical_size a - 2
              \<and> neighbor \<noteq> [] then
        (case random_choice neighbor r of
           Inl e \<Rightarrow> Inl e
         | Inr (x, r1) \<Rightarrow> Inr (set_remove neighbor x, r1))
      else if act = Swap \<and> neighbor \<noteq> [] then
        (case random_choice neighbor r of
           Inl e \<Rightarrow> Inl e
         | Inr (to_remove, r1) \<Rightarrow>
             (let potential_adds = set_minus (vertices (sa_cube a)) neighbor in
              if potential_adds \<noteq> [] then
                (case random_choice potential_adds r1 of
                   Inl e \<Rightarrow> Inl e
                 | Inr (to_add, r2) \<Rightarrow>
                     Inr (set_add (set_remove neighbor to_remove) to_add, r2))
              else Inr (neighbor, r1)))
      else Inr (neighbor, r))"

definition sa_get_neighbor :: "sa \<Rightarrow> string list \<Rightarrow> rng \<Rightarrow> py_error + (string list \<times> rng)" where
  "sa_get_neighbor a current_code r =
     (case random_choice [Add, Remove, Swap] r of
        Inl e \<Rightarrow> Inl e
      | Inr (act, r1) \<Rightarrow>
     (case sa_apply_action a act (remdups current_code) r1 of
        Inl e \<Rightarrow> Inl e
      | Inr (neighbor, r2) \<Rightarrow>
          if neighbor = [] then
            (case random_choice (vertices (sa_cube a)) r2 of
               Inl e \<Rightarrow> Inl e
             | Inr (x, r3) \<Rightarrow> Inr (set_add neighbor x, r3))
          else Inr (neighbor, r2)))"

text \<open>
  \<open>math.exp\<close> raises \<open>OverflowError\<close> when the result exceeds the largest double;
  \<open>int(x)\<close> truncates towards zero.
\<close>

definition dbl_max :: real where
  "dbl_max = 2 ^ 1024 - 2 ^ 971"

definition math_exp :: "real \<Rightarrow> py_error + real" where
  "math_exp x = (if exp x > dbl_max then Inl OverflowError else Inr (exp x))"

definition py_int :: "real \<Rightarrow> int" where
  "py_int x = (if 0 \<le> x then \<lfloor>x\<rfloor> else \<lceil>x\<rceil>)"

text \<open>
  The variables of \<open>run\<close> that its loop updates (\<open>uncovered\<close> and \<open>collisions\<close> are only
  printed and left out).
\<close>

record sa_state =
  current_code :: "string list"
  current_energy :: real
  best_code :: "string list"
  best_energy :: real
  temp :: real

text \<open>
  The Metropolis test \<open>neighbor_energy < current_energy or random.random() <
  math.exp((current_energy - neighbor_energy) / temp)\<close>: the right operand of \<open>or\<close> is
  evaluated only when the left one is false, and the division raises when \<open>temp\<close> is zero.
\<close>

definition sa_accept :: "real \<Rightarrow> real \<Rightarrow> real \<Rightarrow> rng \<Rightarrow> py_error + (bool \<times> rng)" where
  "sa_accept neighbor_energy cur_energy t r =
     (if neighbor_energy < cur_energy then Inr (True, r)
      else let (u, r1) = random_random r in
           if t = 0 then Inl ZeroDivisionError
           else case math_exp ((cur_energy - neighbor_energy) / t) of
                  Inl e \<Rightarrow> Inl e
                | Inr p \<Rightarrow> Inr (u < p, r1))"

text \<open>
  One pass of \<open>for i in range(self.max_iterations)\<close>: \<open>Inl\<close> of the code when the pass
  returns from \<open>run\<close>, \<open>Inr\<close> of the updated variables otherwise.
\<close>

definition sa_iteration ::
    "sa \<Rightarrow> sa_state \<Rightarrow> rng \<Rightarrow> py_error + (string list + (sa_state \<times> rng))" where
  "sa_iteration a st r =
     (case sa_get_neighbor a (current_code st) r of
        Inl e \<Rightarrow> Inl e
      | Inr (neighbor_code, r1) \<Rightarrow>
     (case sa_calculate_energy a neighbor_code of
        Inl e \<Rightarrow> Inl e
      | Inr (neighbor_energy, n_uncovered, n_collisions) \<Rightarrow>
     (case sa_accept neighbor_energy (current_energy st) (temp st) r1 of
        Inl e \<Rightarrow> Inl e
      | Inr (accepted, r2) \<Rightarrow>
     (let st1 = (if accepted
                 then st\<lparr>current_code := neighbor_code, current_energy := neighbor_energy\<rparr>
                 else st);
          st2 = (if current_energy st1 < best_energy st1
                 then st1\<lparr>best_energy := current_energy st1, best_code := current_code st1\<rparr>
                 else st1);
          st3 = st2\<lparr>temp := temp st2 * sa_cooling_rate a\<rparr>
      in if best_energy st3 = 0 then
           (case is_perfect_code (sa_cube a) (best_code st3) of
              Inl e \<Rightarrow> Inl e
            | Inr True \<Rightarrow> Inr (Inl (best_code st3))
            | Inr False \<Rightarrow> Inr (Inr (st3, r2)))
         else Inr (Inr (st3, r2))))))"

fun sa_run_loop :: "sa \<Rightarrow> nat \<Rightarrow> sa_state \<Rightarrow> rng \<Rightarrow> py_error + string list option" where
  "sa_run_loop a 0 st r = Inr None"
| "sa_run_loop a (Suc k) st r =
     (case sa_iteration a st r of
        Inl e \<Rightarrow> Inl e
      | Inr (Inl code) \<Rightarrow> Inr (Some code)
      | Inr (Inr (st', r')) \<Rightarrow> sa_run_loop a k st' r')"

text \<open>The statements of \<open>run\<close> before its loop.\<close>

definition sa_initial_state :: "sa \<Rightarrow> rng \<Rightarrow> py_error + (sa_state \<times> rng)" where
  "sa_initial_state a r =
     (case random_sample (vertices (sa_cube a)) (py_int (sa_theoretical_size a)) r of
        Inl e \<Rightarrow> Inl e
      | Inr (code, r1) \<Rightarrow>
     (case sa_calculate_energy a code of
        Inl e \<Rightarrow> Inl e
      | Inr (energy, uncovered, collisions) \<Rightarrow>
          Inr (\<lparr>current_code = code, current_energy = energy, best_code = code,
                best_energy = energy, temp = sa_initial_temp a\<rparr>, r1)))"

definition sa_run :: "sa \<Rightarrow> rng \<Rightarrow> py_error + string list option" where
  "sa_run a r =
     (case sa_initial_state a r of
        Inl e \<Rightarrow> Inl e
      | Inr (st, r1) \<Rightarrow> sa_run_loop a (nat (sa_max_iterations a)) st r1)"


section \<open>Notions of the specification\<close>

text \<open>A bit string: every character is \<open>'0'\<close> or \<open>'1'\<close>.\<close>

definition bit_string :: "string \<Rightarrow> bool" where
  "bit_string v = list_all (\<lambda>ch. ch = CHR ''0'' \<or> ch = CHR ''1'') v"

text \<open>
  The closed neighbourhood of the data model: \<open>v\<close> itself and the vertices of the cube
  at Hamming distance 1 from \<open>v\<close>.
\<close>

definition closed_neighborhood :: "cube \<Rightarrow> string \<Rightarrow> string set" where
  "closed_neighborhood c v =
     insert v {u \<in> vertex_set c. get_hamming_distance u v = Inr 1}"

text \<open>Coverage: the size of the union of the closed neighbourhoods of the codewords.\<close>

definition coverage :: "cube \<Rightarrow> string list \<Rightarrow> nat" where
  "coverage c C = card (\<Union> (closed_neighborhood c ` set C))"

text \<open>
  Collisions as the specification counts them: the pairs of positions \<open>i < j\<close> whose
  codewords are at Hamming distance less than 3.
\<close>

definition distance_below_3 :: "string \<Rightarrow> string \<Rightarrow> bool" where
  "distance_below_3 a b = (case get_hamming_distance a b of Inl e \<Rightarrow> False | Inr d \<Rightarrow> d < 3)"

definition colliding_pair_count :: "string list \<Rightarrow> nat" where
  "colliding_pair_count C =
     length [(i, j). i \<leftarrow> [0..<length C], j \<leftarrow> [0..<length C],
                     i < j, distance_below_3 (C ! i) (C ! j)]"

text \<open>
  The number of positions whose codeword's closed neighbourhood meets the closed
  neighbourhood of a codeword at an earlier position.
\<close>

definition overlap_count :: "cube \<Rightarrow> string list \<Rightarrow> nat" where
  "overlap_count c C =
     length (filter (\<lambda>i. closed_neighborhood c (C ! i) \<inter>
                          \<Union> (closed_neighborhood c ` set (take i C)) \<noteq> {})
                    [0..<length C])"

section \<open>Concrete inputs\<close>

definition cube_3_3 :: cube where
  "cube_3_3 = \<lparr>cube_n = 3, cube_s = 3\<rparr>"

text \<open>A generator whose first draws are the given numbers; every later draw is 0.\<close>

definition rng_of_list :: "nat list \<Rightarrow> rng" where
  "rng_of_list ds = \<lparr>rng_draws = (\<lambda>i. if i < length ds then ds ! i else 0), rng_pos = 0\<rparr>"

text \<open>The same generator after \<open>k\<close> draws.\<close>

definition rng_at :: "nat list \<Rightarrow> nat \<Rightarrow> rng" where
  "rng_at ds k = (rng_of_list ds)\<lparr>rng_pos := k\<rparr>"

text \<open>
  The engines on that cube, as their constructors build them:
  \<open>GeneticAlgorithmSearch(3, 3, 1, 1, 0.1, 1)\<close>,
  \<open>MemeticAlgorithmSearch(3, 3, 1, 1, 0.1, 1, 3)\<close> and
  \<open>SimulatedAnnealingSearch(3, 3, 1000, 0.999, 1, 60)\<close>.
\<close>

definition ga_3_3 :: ga where
  "ga_3_3 = \<lparr>ga_cube = cube_3_3, ga_population_size = 1, ga_generations = 1,
             ga_mutation_rate = 1 / 10, ga_elitism_k = 1, ga_n = 3,
             ga_theoretical_size = 2\<rparr>"

definition ma_3_3 :: ma where
  "ma_3_3 = \<lparr>ma_cube = cube_3_3, ma_population_size = 1, ma_generations = 1,
             ma_mutation_rate = 1 / 10, ma_elitism_k = 1, ma_local_search_steps = 3,
             ma_n = 3, ma_theoretical_size = 2\<rparr>"

definition sa_3_3 :: sa where
  "sa_3_3 = \<lparr>sa_cube = cube_3_3, sa_n = 3, sa_s = 3, sa_initial_temp = 1000,
             sa_cooling_rate = 999 / 1000, sa_max_iterations = 1,
             sa_collision_penalty = 60, sa_theoretical_size = 7 / 4\<rparr>"



section \<open>Membership in the cube\<close>

lemma format_0b_Suc:
  assumes "1 \<le> n"
  shows "format_0b (Suc n) i = format_0b n (i div 2) @ [bit_char (i mod 2)]"
proof (cases "i < 2")
  case True
  then have "i div 2 = 0" "i mod 2 = i" by auto
  moreover have "bin_digits 0 = [bit_char 0]" by (simp add: bin_digits.simps)
  moreover have "bin_digits i = [bit_char i]" using True by (simp add: bin_digits.simps)
  moreover have "replicate (n - 1) CHR ''0'' @ [CHR ''0''] = replicate n CHR ''0''"
    using assms by (cases n) (simp_all add: replicate_append_same)
  ultimately show ?thesis by (simp add: format_0b_def bit_char_def)
next
  case False
  then have "bin_digits i = bin_digits (i div 2) @ [bit_char (i mod 2)]"
    by (subst bin_digits.simps) simp
  then show ?thesis by (simp add: format_0b_def)
qed

lemma format_0b_1: "i < 2 \<Longrightarrow> format_0b (Suc 0) i = [bit_char i]"
  by (simp add: format_0b_def bin_digits.simps)

lemma bit_string_append: "bit_string (xs @ ys) \<longleftrightarrow> bit_string xs \<and> bit_string ys"
  by (simp add: bit_string_def)

lemma format_0b_range:
  "1 \<le> n \<Longrightarrow> set (map (format_0b n) [0..<2 ^ n]) = {v. length v = n \<and> bit_string v}"
proof (induction n rule: nat_induct_at_least)
  case base
  have "[0..<2 ^ 1] = [0, Suc 0]" by (simp add: upt_rec)
  moreover have "format_0b (Suc 0) 0 = ''0''" "format_0b (Suc 0) (Suc 0) = ''1''"
    by (simp_all add: format_0b_1 bit_char_def)
  ultimately have "set (map (format_0b 1) [0..<2 ^ 1]) = {''0'', ''1''}"
    by simp
  moreover have "{v. length v = 1 \<and> bit_string v} = {''0'', ''1''}"
    by (auto simp: bit_string_def length_Suc_conv)
  ultimately show ?case by simp
next
  case (Suc n)
  show ?case
  proof (intro equalityI subsetI)
    fix v assume "v \<in> set (map (format_0b (Suc n)) [0..<2 ^ Suc n])"
    then obtain i where i: "i < 2 ^ Suc n" "v = format_0b (Suc n) i" by auto
    have "i div 2 < 2 ^ n" using i(1) by auto
    then have "format_0b n (i div 2) \<in> set (map (format_0b n) [0..<2 ^ n])" by auto
    then have "length (format_0b n (i div 2)) = n \<and> bit_string (format_0b n (i div 2))"
      using Suc.IH by auto
    then show "v \<in> {v. length v = Suc n \<and> bit_string v}"
      using i(2) format_0b_Suc[OF Suc.hyps, of i]
      by (simp add: bit_string_append) (simp add: bit_string_def bit_char_def)
  next
    fix v assume "v \<in> {v. length v = Suc n \<and> bit_string v}"
    then have v: "length v = Suc n" "bit_string v" by auto
    then obtain w b where wb: "v = w @ [b]" by (cases v rule: rev_cases) auto
    then have "length w = n" "bit_string w" and b: "b = CHR ''0'' \<or> b = CHR ''1''"
      using v by (auto simp: bit_string_def)
    then have "w \<in> set (map (format_0b n) [0..<2 ^ n])" using Suc.IH by auto
    then obtain j where j: "j < 2 ^ n" "w = format_0b n j" by auto
    define i where "i = 2 * j + (if b = CHR ''1'' then 1 else 0)"
    have "i div 2 = j" "bit_char (i mod 2) = b" "i < 2 ^ Suc n"
      using b j(1) by (auto simp: i_def bit_char_def)
    then have "format_0b (Suc n) i = v" "i < 2 ^ Suc n"
      using format_0b_Suc[OF Suc.hyps, of i] j(2) wb by auto
    then show "v \<in> set (map (format_0b (Suc n)) [0..<2 ^ Suc n])"
      by force
  qed
qed

lemma sublist_replicate_iff:
  "sublist (replicate s x) ys \<longleftrightarrow> (\<exists>i. i + s \<le> length ys \<and> (\<forall>k<s. ys ! (i + k) = x))"
proof
  assume "sublist (replicate s x) ys"
  then obtain ps ss where ys: "ys = ps @ replicate s x @ ss" by (auto simp: sublist_def)
  have "length ps + s \<le> length ys" by (simp add: ys)
  moreover have "\<forall>k<s. ys ! (length ps + k) = x" by (simp add: ys nth_append)
  ultimately show "\<exists>i. i + s \<le> length ys \<and> (\<forall>k<s. ys ! (i + k) = x)" by blast
next
  assume "\<exists>i. i + s \<le> length ys \<and> (\<forall>k<s. ys ! (i + k) = x)"
  then obtain i where i: "i + s \<le> length ys" "\<forall>k<s. ys ! (i + k) = x" by blast
  have "take s (drop i ys) = replicate s x"
    using i by (auto simp: list_eq_iff_nth_eq)
  moreover have "ys = take i ys @ take s (drop i ys) @ drop s (drop i ys)"
    by (metis append_take_drop_id)
  ultimately have "ys = take i ys @ replicate s x @ drop s (drop i ys)" by simp
  then show "sublist (replicate s x) ys" unfolding sublist_def by blast
qed


lemma circular_run_iff:
  assumes "s \<le> length v" "0 < length v"
  shows "(\<exists>r. sublist (replicate s x) (rotate r v))
         \<longleftrightarrow> (\<exists>c<length v. \<forall>k<s. v ! ((c + k) mod length v) = x)"
proof
  assume "\<exists>r. sublist (replicate s x) (rotate r v)"
  then obtain r i where i: "i + s \<le> length v" "\<forall>k<s. rotate r v ! (i + k) = x"
    by (auto simp: sublist_replicate_iff)
  have "v ! (((r + i) mod length v + k) mod length v) = x" if "k < s" for k
  proof -
    have "i + k < length v" using that i(1) by simp
    then have "rotate r v ! (i + k) = v ! ((r + (i + k)) mod length v)"
      by (rule nth_rotate)
    moreover have "((r + i) mod length v + k) mod length v = (r + (i + k)) mod length v"
      by (simp add: mod_add_left_eq add.assoc)
    ultimately show ?thesis using i(2) that by simp
  qed
  moreover have "(r + i) mod length v < length v" using assms(2) by simp
  ultimately show "\<exists>c<length v. \<forall>k<s. v ! ((c + k) mod length v) = x" by blast
next
  assume "\<exists>c<length v. \<forall>k<s. v ! ((c + k) mod length v) = x"
  then obtain c where c: "c < length v" "\<forall>k<s. v ! ((c + k) mod length v) = x" by blast
  have "rotate c v ! (0 + k) = x" if "k < s" for k
    using that c(2) assms(1) by (simp add: nth_rotate)
  then have "sublist (replicate s x) (rotate c v)"
    unfolding sublist_replicate_iff using assms(1) by (intro exI[of _ 0]) simp
  then show "\<exists>r. sublist (replicate s x) (rotate r v)" by blast
qed

lemma seam_nth:
  assumes "s \<le> length v" "1 \<le> s" "j < 2 * (s - 1)"
  shows "(drop (length v - s + 1) v @ take (s - 1) v) ! j = v ! ((length v - s + 1 + j) mod length v)"
proof (cases "j < s - 1")
  case True
  then have "length v - s + 1 + j < length v" using assms by linarith
  then show ?thesis using True assms by (simp add: nth_append)
next
  case False
  have ge: "length v \<le> length v - s + 1 + j" using False assms by linarith
  have lt: "length v - s + 1 + j - length v < length v" using False assms by linarith
  have "(length v - s + 1 + j) mod length v = length v - s + 1 + j - length v"
    using ge lt by (simp add: le_mod_geq)
  also have "\<dots> = j - (s - 1)" using False assms by linarith
  finally have m: "(length v - s + 1 + j) mod length v = j - (s - 1)" .
  have l: "length (drop (length v - s + 1) v) = s - 1" using assms by simp
  have small: "j - (s - 1) < s - 1" using False assms by linarith
  have "(drop (length v - s + 1) v @ take (s - 1) v) ! j = take (s - 1) v ! (j - (s - 1))"
    using False l by (metis nth_append)
  also have "\<dots> = v ! (j - (s - 1))" using small by (rule nth_take)
  finally show ?thesis using m by metis
qed

lemma seam_length:
  "s \<le> length v \<Longrightarrow> 1 \<le> s \<Longrightarrow> length (drop (length v - s + 1) v @ take (s - 1) v) = 2 * (s - 1)"
  by simp

lemma seam_iff:
  assumes "s \<le> length v" "2 \<le> s"
  shows "sublist (replicate s x) v
           \<or> sublist (replicate s x) (drop (length v - s + 1) v @ take (s - 1) v)
         \<longleftrightarrow> (\<exists>c<length v. \<forall>k<s. v ! ((c + k) mod length v) = x)"
    (is "?lin \<or> ?seam \<longleftrightarrow> ?circ")
proof
  assume "?lin \<or> ?seam"
  then show ?circ
  proof
    assume ?lin
    then obtain i where i: "i + s \<le> length v" "\<forall>k<s. v ! (i + k) = x"
      by (auto simp: sublist_replicate_iff)
    have "v ! ((i + k) mod length v) = x" if "k < s" for k
      using that i by simp
    moreover have "i < length v" using i(1) assms(2) by simp
    ultimately show ?circ by blast
  next
    assume ?seam
    then obtain a where
        "a + s \<le> length (drop (length v - s + 1) v @ take (s - 1) v)"
        and a2: "\<forall>k<s. (drop (length v - s + 1) v @ take (s - 1) v) ! (a + k) = x"
      unfolding sublist_replicate_iff by blast
    then have a1: "a + s \<le> 2 * (s - 1)"
      using seam_length[of s v] assms by simp
    note a = a1 a2
    have "v ! ((length v - s + 1 + a + k) mod length v) = x" if "k < s" for k
    proof -
      have "a + k < 2 * (s - 1)" using that a(1) by simp
      from seam_nth[OF assms(1) _ this] a(2) that assms(2) show ?thesis
        by (simp add: add.assoc)
    qed
    moreover have "length v - s + 1 + a < length v" using a(1) assms by linarith
    ultimately show ?circ by blast
  qed
next
  assume ?circ
  then obtain c where c: "c < length v" "\<forall>k<s. v ! ((c + k) mod length v) = x" by blast
  show "?lin \<or> ?seam"
  proof (cases "c + s \<le> length v")
    case True
    then have "\<forall>k<s. v ! (c + k) = x" using c(2) by simp
    then have ?lin unfolding sublist_replicate_iff using True by blast
    then show ?thesis ..
  next
    case False
    define a where "a = c - (length v - s + 1)"
    have ca: "c = length v - s + 1 + a" using False assms c(1) by (simp add: a_def)
    have as: "a + s \<le> 2 * (s - 1)" using c(1) ca assms by linarith
    have "(drop (length v - s + 1) v @ take (s - 1) v) ! (a + k) = x" if "k < s" for k
    proof -
      have "a + k < 2 * (s - 1)" using that as by simp
      from seam_nth[OF assms(1) _ this] c(2) that assms(2) show ?thesis
        by (simp add: ca add.assoc)
    qed
    moreover have "a + s \<le> length (drop (length v - s + 1) v @ take (s - 1) v)"
      using seam_length[of s v] assms as by simp
    ultimately have ?seam unfolding sublist_replicate_iff by blast
    then show ?thesis ..
  qed
qed

lemma has_forbidden_substring_circular:
  assumes "2 \<le> s" "0 < length v"
  shows "has_forbidden_substring v (replicate s x)
         \<longleftrightarrow> (\<exists>r. sublist (replicate s x) (rotate r v))"
proof (cases "length v < s")
  case True
  have "\<not> sublist (replicate s x) (rotate r v)" for r
    using True sublist_length_le[of "replicate s x" "rotate r v"] by auto
  then show ?thesis using True by (simp add: has_forbidden_substring_def)
next
  case False
  then have le: "s \<le> length v" by simp
  have "has_forbidden_substring v (replicate s x)
        \<longleftrightarrow> sublist (replicate s x) v
           \<or> sublist (replicate s x) (drop (length v - s + 1) v @ take (s - 1) v)"
    using False assms(1) by (auto simp: has_forbidden_substring_def Let_def)
  then show ?thesis
    using seam_iff[OF le assms(1)] circular_run_iff[OF le assms(2)] by simp
qed

section \<open>The cube \<open>\<Lambda>\<^sub>3(1\<^sup>3)\<close>\<close>

lemma GeneralizedLucasCube_3_3: "GeneralizedLucasCube 3 3 = Inr cube_3_3"
  by (simp add: GeneralizedLucasCube_def cube_3_3_def)

lemma vertices_cube_3_3:
  "vertices cube_3_3 = [''000'', ''001'', ''010'', ''011'', ''100'', ''101'', ''110'']"
  unfolding cube_3_3_def by code_simp

lemma vertex_set_cube_3_3:
  "vertex_set cube_3_3 = {''000'', ''001'', ''010'', ''011'', ''100'', ''101'', ''110''}"
  by (simp add: vertex_set_def vertices_cube_3_3)

lemma card_vertex_set_cube_3_3: "card (vertex_set cube_3_3) = 7"
  by (simp add: vertex_set_cube_3_3)

text \<open>
  C4 (as the code has it).  In the cube with \<open>n = 3\<close> and \<open>s = 3\<close> the vertex \<open>111\<close> is
  not a member, the vertex \<open>110\<close> is a member, and the vertex set has exactly 7 elements:
  every string of three bits except \<open>111\<close>.
\<close>

theorem cube_3_3_scenario:
  "GeneralizedLucasCube 3 3 = Inr cube_3_3 \<and> \<not> contains cube_3_3 ''111''
     \<and> contains cube_3_3 ''110'' \<and> card (vertex_set cube_3_3) = 7
     \<and> len_cube cube_3_3 = 7"
  by (simp add: GeneralizedLucasCube_3_3 contains_def vertex_set_cube_3_3 len_cube_def
        vertices_cube_3_3)

text \<open>
  C4 (as the specification states it) fails: the vertex set of the cube with \<open>n = 3\<close> and
  \<open>s = 3\<close> does not have 6 elements.
\<close>

theorem cube_3_3_six_elements_counterexample:
  "\<not> (\<not> contains cube_3_3 ''111'' \<and> contains cube_3_3 ''110''
        \<and> card (vertex_set cube_3_3) = 6)"
  by (simp add: card_vertex_set_cube_3_3)

section \<open>Membership and circular runs\<close>

lemma GeneralizedLucasCube_Inr:
  assumes "GeneralizedLucasCube n s = Inr c"
  shows "0 < n" "1 < s" "cube_n c = nat n" "cube_s c = nat s"
  using assms by (auto simp: GeneralizedLucasCube_def split: if_splits)

lemma vertex_set_iff:
  assumes "1 \<le> cube_n c"
  shows "v \<in> vertex_set c \<longleftrightarrow>
           length v = cube_n c \<and> bit_string v
           \<and> \<not> has_forbidden_substring v (forbidden_pattern c)"
proof -
  have "v \<in> vertex_set c \<longleftrightarrow>
          v \<in> set (map (format_0b (cube_n c)) [0..<2 ^ cube_n c])
          \<and> \<not> has_forbidden_substring v (forbidden_pattern c)"
    by (simp add: vertex_set_def vertices_def generate_vertices_def)
  then show ?thesis using format_0b_range[OF assms] by auto
qed

lemma vertices_small_cube:
  assumes "1 \<le> cube_n c" "cube_n c < cube_s c"
  shows "vertices c = map (format_0b (cube_n c)) [0..<2 ^ cube_n c]"
proof -
  have "\<not> has_forbidden_substring v (forbidden_pattern c)"
    if "v \<in> set (map (format_0b (cube_n c)) [0..<2 ^ cube_n c])" for v
  proof -
    have "length v = cube_n c" using that format_0b_range[OF assms(1)] by auto
    then show ?thesis
      using assms(2) by (simp add: has_forbidden_substring_def forbidden_pattern_def)
  qed
  then show ?thesis
    by (simp add: vertices_def generate_vertices_def)
qed

lemma card_bit_strings: "card {v. length v = k \<and> bit_string v} = 2 ^ k"
proof -
  have "{v. length v = k \<and> bit_string v} = {v. set v \<subseteq> {CHR ''0'', CHR ''1''} \<and> length v = k}"
    by (auto simp: bit_string_def list_all_iff)
  moreover have "card {v. set v \<subseteq> {CHR ''0'', CHR ''1''} \<and> length v = k} = card {CHR ''0'', CHR ''1''} ^ k"
    by (rule card_lists_length_eq) simp
  moreover have "card {CHR ''0'', CHR ''1''} = (2::nat)" by simp
  ultimately show ?thesis by metis
qed

text \<open>
  C2.  For \<open>n \<ge> 1\<close> and \<open>s \<ge> 2\<close> (the parameters the constructor accepts), a bit string
  of length \<open>n\<close> is a member of the cube if and only if no rotation of it contains \<open>s\<close>
  consecutive characters \<open>1\<close>; and when \<open>n < s\<close> the vertex list has exactly \<open>2\<^sup>n\<close>
  elements, all different.
\<close>

theorem membership_iff_no_circular_run:
  assumes "GeneralizedLucasCube n s = Inr c"
  shows "(\<forall>v. length v = nat n \<and> bit_string v \<longrightarrow>
            (contains c v \<longleftrightarrow> \<not> (\<exists>r. sublist (replicate (nat s) CHR ''1'') (rotate r v))))
         \<and> (n < s \<longrightarrow> len_cube c = 2 ^ nat n \<and> card (vertex_set c) = 2 ^ nat n)"
proof (intro conjI allI impI)
  note c = GeneralizedLucasCube_Inr[OF assms]
  have n1: "1 \<le> cube_n c" using c by simp
  fix v assume v: "length v = nat n \<and> bit_string v"
  then have "0 < length v" using c by simp
  moreover have "2 \<le> nat s" using c by simp
  ultimately have "has_forbidden_substring v (replicate (nat s) CHR ''1'')
          \<longleftrightarrow> (\<exists>r. sublist (replicate (nat s) CHR ''1'') (rotate r v))"
    by (rule has_forbidden_substring_circular[rotated])
  then show "contains c v \<longleftrightarrow> \<not> (\<exists>r. sublist (replicate (nat s) CHR ''1'') (rotate r v))"
    using v c vertex_set_iff[OF n1, of v] by (simp add: contains_def forbidden_pattern_def)
next
  note c = GeneralizedLucasCube_Inr[OF assms]
  have n1: "1 \<le> cube_n c" using c by simp
  assume "n < s"
  then have small: "cube_n c < cube_s c" using c by simp
  show "len_cube c = 2 ^ nat n"
    using vertices_small_cube[OF n1 small] c by (simp add: len_cube_def)
  have "vertex_set c = {v. length v = cube_n c \<and> bit_string v}"
    using vertices_small_cube[OF n1 small] format_0b_range[OF n1] by (simp add: vertex_set_def)
  then show "card (vertex_set c) = 2 ^ nat n"
    using card_bit_strings[of "cube_n c"] c by simp
qed

theorem membership_iff_no_circular_run_witness:
  "contains cube_3_3 ''110'' \<and> \<not> (\<exists>r. sublist ''111'' (rotate r ''110''))
   \<and> \<not> contains cube_3_3 ''111'' \<and> (\<exists>r. sublist ''111'' (rotate r ''111''))
   \<and> len_cube \<lparr>cube_n = 2, cube_s = 3\<rparr> = 4
   \<and> card (vertex_set \<lparr>cube_n = 2, cube_s = 3\<rparr>) = 4"
proof -
  have c23: "GeneralizedLucasCube 2 3 = Inr \<lparr>cube_n = 2, cube_s = 3\<rparr>"
    by (simp add: GeneralizedLucasCube_def)
  have p: "replicate (nat 3) CHR ''1'' = ''111''"
    by (simp add: numeral_3_eq_3)
  have m: "contains cube_3_3 ''110''" "\<not> contains cube_3_3 ''111''"
    by (simp_all add: contains_def vertex_set_cube_3_3)
  have "contains cube_3_3 ''110'' \<longleftrightarrow> \<not> (\<exists>r. sublist ''111'' (rotate r ''110''))"
    using membership_iff_no_circular_run[OF GeneralizedLucasCube_3_3] p
    by (simp add: bit_string_def)
  moreover have "contains cube_3_3 ''111'' \<longleftrightarrow> \<not> (\<exists>r. sublist ''111'' (rotate r ''111''))"
    using membership_iff_no_circular_run[OF GeneralizedLucasCube_3_3] p
    by (simp add: bit_string_def)
  moreover have "len_cube \<lparr>cube_n = 2, cube_s = 3\<rparr> = 4
      \<and> card (vertex_set \<lparr>cube_n = 2, cube_s = 3\<rparr>) = 4"
    using membership_iff_no_circular_run[OF c23] by simp
  ultimately show ?thesis using m by blast
qed

section \<open>Neighbours and closed neighbourhoods\<close>

lemma get_neighbors_loop_eq:
  "\<forall>i\<in>set idxs. i < length bits \<Longrightarrow>
   get_neighbors_loop c bits idxs acc =
     Inr (acc @ filter (contains c) (map (\<lambda>i. bits[i := flip_bit (bits ! i)]) idxs))"
  by (induction idxs arbitrary: acc) (simp_all add: Let_def)

lemma get_neighbors_eq:
  "cube_n c \<le> length bits \<Longrightarrow>
   get_neighbors c bits =
     Inr (filter (contains c) (map (\<lambda>i. bits[i := flip_bit (bits ! i)]) [0..<cube_n c]))"
  unfolding get_neighbors_def by (subst get_neighbors_loop_eq) auto

lemma get_neighbors_short:
  "length bits < cube_n c \<Longrightarrow> get_neighbors c bits = Inl IndexError"
proof -
  assume short: "length bits < cube_n c"
  have split: "[0..<cube_n c] = [0..<length bits] @ length bits # [Suc (length bits)..<cube_n c]"
    using short by (metis le_add2 le_add_same_cancel2 upt_add_eq_append upt_conv_Cons
        less_imp_le_nat le_Suc_ex)
  have "get_neighbors_loop c bits (xs @ length bits # ys) acc = Inl IndexError"
    if "\<forall>i\<in>set xs. i < length bits" for xs ys acc
    using that by (induction xs arbitrary: acc) (simp_all add: Let_def)
  then show ?thesis unfolding get_neighbors_def split by simp
qed

lemma diff_count_same: "filter (\<lambda>(a, b). a \<noteq> b) (zip v v) = []"
  by (induction v) simp_all

lemma diff_count_update:
  "i < length v \<Longrightarrow>
   length (filter (\<lambda>(a, b). a \<noteq> b) (zip (v[i := x]) v)) = (if x \<noteq> v ! i then 1 else 0)"
proof (induction v arbitrary: i)
  case Nil
  then show ?case by simp
next
  case (Cons a v)
  then show ?case by (cases i) (simp_all add: diff_count_same)
qed

lemma flip_bit_neq: "flip_bit b \<noteq> b"
  by (simp add: flip_bit_def)

lemma hamming_flip:
  "i < length v \<Longrightarrow> get_hamming_distance (v[i := flip_bit (v ! i)]) v = Inr 1"
  by (simp add: get_hamming_distance_def diff_count_update flip_bit_neq)

lemma diff_count_zero:
  "length u = length v \<Longrightarrow> filter (\<lambda>(a, b). a \<noteq> b) (zip u v) = [] \<Longrightarrow> u = v"
  by (induction u v rule: list_induct2) (auto split: if_splits)

lemma one_flip:
  "length u = length v \<Longrightarrow> bit_string u \<Longrightarrow> bit_string v \<Longrightarrow>
   length (filter (\<lambda>(a, b). a \<noteq> b) (zip u v)) = 1 \<Longrightarrow>
   \<exists>i<length v. u = v[i := flip_bit (v ! i)]"
proof (induction u v rule: list_induct2)
  case Nil
  then show ?case by simp
next
  case (Cons a u b v)
  show ?case
  proof (cases "a = b")
    case True
    then have "\<exists>i<length v. u = v[i := flip_bit (v ! i)]"
      using Cons by (simp add: bit_string_def)
    then obtain i where "i < length v" "u = v[i := flip_bit (v ! i)]" by blast
    then have "Suc i < length (b # v)" "a # u = (b # v)[Suc i := flip_bit ((b # v) ! Suc i)]"
      using True by simp_all
    then show ?thesis by blast
  next
    case False
    then have "filter (\<lambda>(a, b). a \<noteq> b) (zip u v) = []" using Cons.prems(3) by simp
    then have "u = v" using Cons.hyps by (rule diff_count_zero[rotated])
    moreover have "a = flip_bit b" using False Cons.prems(1,2) by (auto simp: bit_string_def flip_bit_def)
    ultimately have "a # u = (b # v)[0 := flip_bit ((b # v) ! 0)]" by simp
    then show ?thesis by blast
  qed
qed

lemma member_props:
  assumes "1 \<le> cube_n c" "v \<in> vertex_set c"
  shows "length v = cube_n c" "bit_string v"
  using assms vertex_set_iff[OF assms(1)] by auto

lemma neighbors_of_member:
  assumes "1 \<le> cube_n c" "v \<in> vertex_set c"
  shows "\<exists>ns. get_neighbors c v = Inr ns \<and> insert v (set ns) = closed_neighborhood c v"
proof -
  note v = member_props[OF assms]
  let ?ns = "filter (contains c) (map (\<lambda>i. v[i := flip_bit (v ! i)]) [0..<cube_n c])"
  have 1: "get_neighbors c v = Inr ?ns" using v(1) by (simp add: get_neighbors_eq)
  have "set ?ns = {u \<in> vertex_set c. get_hamming_distance u v = Inr 1}"
  proof (intro equalityI subsetI)
    fix u assume "u \<in> set ?ns"
    then obtain i where "i < cube_n c" "u = v[i := flip_bit (v ! i)]" "u \<in> vertex_set c"
      by (auto simp: contains_def)
    then show "u \<in> {u \<in> vertex_set c. get_hamming_distance u v = Inr 1}"
      using hamming_flip[of i v] v(1) by simp
  next
    fix u assume "u \<in> {u \<in> vertex_set c. get_hamming_distance u v = Inr 1}"
    then have u: "u \<in> vertex_set c" "get_hamming_distance u v = Inr 1" by auto
    note mu = member_props[OF assms(1) u(1)]
    have "length (filter (\<lambda>(a, b). a \<noteq> b) (zip u v)) = 1"
      using u(2) by (simp add: get_hamming_distance_def split: if_splits)
    then obtain i where "i < length v" "u = v[i := flip_bit (v ! i)]"
      using one_flip[of u v] mu v by auto
    then show "u \<in> set ?ns" using u(1) v(1) by (auto simp: contains_def)
  qed
  then show ?thesis using 1 by (simp add: closed_neighborhood_def)
qed

lemma self_in_closed_neighborhood: "v \<in> closed_neighborhood c v"
  by (simp add: closed_neighborhood_def)

text \<open>
  For a vertex of the cube, \<open>get_closed_neighborhood\<close> lists exactly the closed
  neighbourhood; for any other string it returns the empty list.
\<close>

lemma get_closed_neighborhood_member:
  assumes "1 \<le> cube_n c" "v \<in> vertex_set c"
  shows "\<exists>ns. get_closed_neighborhood c v = Inr ns \<and> set ns = closed_neighborhood c v"
proof -
  from neighbors_of_member[OF assms] obtain ns where
    "get_neighbors c v = Inr ns" "insert v (set ns) = closed_neighborhood c v" by blast
  then show ?thesis
    using assms(2) by (simp add: get_closed_neighborhood_def contains_def)
qed

lemma get_closed_neighborhood_outside:
  "v \<notin> vertex_set c \<Longrightarrow> get_closed_neighborhood c v = Inr []"
  by (simp add: get_closed_neighborhood_def contains_def)

section \<open>The verifier\<close>

lemma zeros_in_vertex_set:
  assumes "1 \<le> cube_n c" "1 \<le> cube_s c"
  shows "replicate (cube_n c) CHR ''0'' \<in> vertex_set c"
proof -
  let ?z = "replicate (cube_n c) CHR ''0''"
  have no: "\<not> sublist (forbidden_pattern c) xs" if "set xs \<subseteq> {CHR ''0''}" for xs
  proof
    assume "sublist (forbidden_pattern c) xs"
    then have "set (forbidden_pattern c) \<subseteq> set xs" by (rule set_mono_sublist)
    moreover have "CHR ''1'' \<in> set (forbidden_pattern c)"
      using assms(2) by (simp add: forbidden_pattern_def)
    ultimately show False using that by auto
  qed
  have "set (drop k ?z @ take m ?z) \<subseteq> {CHR ''0''}" for k m
    by auto
  then have b: "\<not> sublist (forbidden_pattern c) (drop k ?z @ take m ?z)" for k m
    by (rule no)
  have a: "\<not> sublist (forbidden_pattern c) ?z"
    by (rule no) auto
  have "\<not> has_forbidden_substring ?z (forbidden_pattern c)"
    by (simp only: has_forbidden_substring_def Let_def a b) simp
  then show ?thesis
    using vertex_set_iff[OF assms(1), of ?z] by (simp add: bit_string_def list_all_iff)
qed

lemma is_perfect_code_loop_eq:
  assumes "1 \<le> cube_n c"
  shows "is_perfect_code_loop c C covered =
           Inr (set C \<subseteq> vertex_set c
                \<and> sorted_wrt (\<lambda>a b. closed_neighborhood c a \<inter> closed_neighborhood c b = {}) C
                \<and> (\<forall>w\<in>set C. covered \<inter> closed_neighborhood c w = {})
                \<and> covered \<union> \<Union> (closed_neighborhood c ` set C) = vertex_set c)"
proof (induction C arbitrary: covered)
  case Nil
  then show ?case by simp
next
  case (Cons w ws)
  show ?case
  proof (cases "w \<in> vertex_set c")
    case False
    then show ?thesis by simp
  next
    case True
    from neighbors_of_member[OF assms True] obtain ns where
      ns: "get_neighbors c w = Inr ns" "insert w (set ns) = closed_neighborhood c w" by blast
    show ?thesis
    proof (cases "covered \<inter> closed_neighborhood c w = {}")
      case False
      then show ?thesis using True ns by (simp add: Let_def)
    next
      case disj: True
      have "is_perfect_code_loop c (w # ws) covered =
              is_perfect_code_loop c ws (covered \<union> closed_neighborhood c w)"
        using True ns disj by (simp add: Let_def)
      also have "\<dots> = Inr (set ws \<subseteq> vertex_set c
                \<and> sorted_wrt (\<lambda>a b. closed_neighborhood c a \<inter> closed_neighborhood c b = {}) ws
                \<and> (\<forall>u\<in>set ws. (covered \<union> closed_neighborhood c w) \<inter> closed_neighborhood c u = {})
                \<and> (covered \<union> closed_neighborhood c w) \<union> \<Union> (closed_neighborhood c ` set ws)
                    = vertex_set c)"
        by (rule Cons.IH)
      finally show ?thesis using True disj by (auto simp: Int_Un_distrib2)
    qed
  qed
qed

lemma is_perfect_code_eq:
  assumes "1 \<le> cube_n c"
  shows "is_perfect_code c C =
           Inr (C \<noteq> [] \<and> set C \<subseteq> vertex_set c
                \<and> sorted_wrt (\<lambda>a b. closed_neighborhood c a \<inter> closed_neighborhood c b = {}) C
                \<and> \<Union> (closed_neighborhood c ` set C) = vertex_set c)"
  by (simp add: is_perfect_code_def is_perfect_code_loop_eq[OF assms])

lemma union_covers_imp:
  assumes "\<Union> (closed_neighborhood c ` set C) = vertex_set c" "vertex_set c \<noteq> {}"
  shows "C \<noteq> []" "set C \<subseteq> vertex_set c"
  using assms self_in_closed_neighborhood by fastforce+

lemma overlap_not_sorted_wrt:
  assumes "closed_neighborhood c w \<inter> \<Union> (closed_neighborhood c ` set pre) \<noteq> {}"
  shows "\<not> sorted_wrt (\<lambda>a b. closed_neighborhood c a \<inter> closed_neighborhood c b = {})
            (pre @ w # post)"
  using assms by (auto simp: sorted_wrt_append)

text \<open>
  C1.  In a cube built by the constructor, \<open>is_perfect_code\<close> always returns a truth
  value.  It returns false for the empty list and for a list that contains a string
  outside the vertex set; it returns false when the closed neighbourhood of a codeword
  meets the closed neighbourhood of a codeword before it, whatever follows that codeword
  in the list; and it returns true exactly when the closed neighbourhoods of the
  codewords are pairwise disjoint and their union is the vertex set.
\<close>

theorem is_perfect_code_correct:
  assumes "GeneralizedLucasCube n s = Inr c"
  shows "(\<exists>b. is_perfect_code c C = Inr b)
       \<and> is_perfect_code c [] = Inr False
       \<and> ((\<exists>w\<in>set C. w \<notin> vertex_set c) \<longrightarrow> is_perfect_code c C = Inr False)
       \<and> (\<forall>pre w post.
             C = pre @ w # post
             \<and> closed_neighborhood c w \<inter> \<Union> (closed_neighborhood c ` set pre) \<noteq> {}
             \<longrightarrow> is_perfect_code c C = Inr False)
       \<and> (is_perfect_code c C = Inr True \<longleftrightarrow>
             (\<forall>i j. i < j \<and> j < length C \<longrightarrow>
                closed_neighborhood c (C ! i) \<inter> closed_neighborhood c (C ! j) = {})
             \<and> \<Union> (closed_neighborhood c ` set C) = vertex_set c)"
proof -
  note c = GeneralizedLucasCube_Inr[OF assms]
  have n1: "1 \<le> cube_n c" and s1: "1 \<le> cube_s c" using c by simp_all
  have ne: "vertex_set c \<noteq> {}" using zeros_in_vertex_set[OF n1 s1] by auto
  note eq = is_perfect_code_eq[OF n1]
  have 1: "\<exists>b. is_perfect_code c C = Inr b" using eq by blast
  have 2: "is_perfect_code c [] = Inr False" by (simp add: is_perfect_code_def)
  have 3: "(\<exists>w\<in>set C. w \<notin> vertex_set c) \<longrightarrow> is_perfect_code c C = Inr False"
    using eq[of C] by auto
  have 4: "\<forall>pre w post.
             C = pre @ w # post
             \<and> closed_neighborhood c w \<inter> \<Union> (closed_neighborhood c ` set pre) \<noteq> {}
             \<longrightarrow> is_perfect_code c C = Inr False"
  proof (intro allI impI)
    fix pre w post
    assume h: "C = pre @ w # post
             \<and> closed_neighborhood c w \<inter> \<Union> (closed_neighborhood c ` set pre) \<noteq> {}"
    then have "\<not> sorted_wrt (\<lambda>a b. closed_neighborhood c a \<inter> closed_neighborhood c b = {}) C"
      using overlap_not_sorted_wrt[of c w pre post] by simp
    then show "is_perfect_code c C = Inr False" using eq[of C] by simp
  qed
  have 5: "is_perfect_code c C = Inr True \<longleftrightarrow>
             (\<forall>i j. i < j \<and> j < length C \<longrightarrow>
                closed_neighborhood c (C ! i) \<inter> closed_neighborhood c (C ! j) = {})
             \<and> \<Union> (closed_neighborhood c ` set C) = vertex_set c"
  proof -
    have "sorted_wrt (\<lambda>a b. closed_neighborhood c a \<inter> closed_neighborhood c b = {}) C
          \<longleftrightarrow> (\<forall>i j. i < j \<and> j < length C \<longrightarrow>
                closed_neighborhood c (C ! i) \<inter> closed_neighborhood c (C ! j) = {})"
      unfolding sorted_wrt_iff_nth_less by blast
    then show ?thesis
      using eq[of C] union_covers_imp[OF _ ne, of C] by auto
  qed
  show ?thesis using 1 2 3 4 5 by blast
qed


theorem is_perfect_code_correct_witness:
  "is_perfect_code cube_3_3 [''010'', ''111''] = Inr False
   \<and> is_perfect_code cube_3_3 [''000'', ''110''] = Inr False
   \<and> is_perfect_code cube_3_3 [''010'', ''101''] = Inr True
   \<and> closed_neighborhood cube_3_3 ''010'' \<inter> closed_neighborhood cube_3_3 ''101'' = {}
   \<and> closed_neighborhood cube_3_3 ''010'' \<union> closed_neighborhood cube_3_3 ''101''
       = vertex_set cube_3_3"
proof -
  note main = is_perfect_code_correct[OF GeneralizedLucasCube_3_3]
  note outside = main[THEN conjunct2, THEN conjunct2, THEN conjunct1, rule_format]
  note overlap = main[THEN conjunct2, THEN conjunct2, THEN conjunct2, THEN conjunct1,
      rule_format]
  note perfect = main[THEN conjunct2, THEN conjunct2, THEN conjunct2, THEN conjunct2]
  have "\<exists>w\<in>set [''010'', ''111'']. w \<notin> vertex_set cube_3_3"
    by (simp add: vertex_set_cube_3_3)
  then have 1: "is_perfect_code cube_3_3 [''010'', ''111''] = Inr False"
    by (rule outside)
  have "''010'' \<in> closed_neighborhood cube_3_3 ''110''"
       "''010'' \<in> closed_neighborhood cube_3_3 ''000''"
    by (simp_all add: closed_neighborhood_def vertex_set_cube_3_3 get_hamming_distance_def)
  then have "[''000'', ''110''] = [''000''] @ ''110'' # []
      \<and> closed_neighborhood cube_3_3 ''110''
          \<inter> \<Union> (closed_neighborhood cube_3_3 ` set [''000'']) \<noteq> {}"
    by auto
  then have 2: "is_perfect_code cube_3_3 [''000'', ''110''] = Inr False"
    by (rule overlap)
  have 3: "is_perfect_code cube_3_3 [''010'', ''101''] = Inr True"
    unfolding cube_3_3_def by code_simp
  have 4: "(\<forall>i j. i < j \<and> j < length [''010'', ''101''] \<longrightarrow>
                closed_neighborhood cube_3_3 ([''010'', ''101''] ! i)
                \<inter> closed_neighborhood cube_3_3 ([''010'', ''101''] ! j) = {})
             \<and> \<Union> (closed_neighborhood cube_3_3 ` set [''010'', ''101'']) = vertex_set cube_3_3"
    using 3 perfect[of "[''010'', ''101'']"] by (rule iffD1[rotated])
  from 4 have "0 < (1::nat) \<and> 1 < length [''010'', ''101''] \<longrightarrow>
                closed_neighborhood cube_3_3 ([''010'', ''101''] ! 0)
                \<inter> closed_neighborhood cube_3_3 ([''010'', ''101''] ! 1) = {}"
    by blast
  then have 5: "closed_neighborhood cube_3_3 ''010'' \<inter> closed_neighborhood cube_3_3 ''101'' = {}"
    by simp
  from 4 have "\<Union> (closed_neighborhood cube_3_3 ` set [''010'', ''101'']) = vertex_set cube_3_3"
    by (rule conjunct2)
  then have 6: "closed_neighborhood cube_3_3 ''010'' \<union> closed_neighborhood cube_3_3 ''101''
       = vertex_set cube_3_3"
    by simp
  show ?thesis using 1 2 3 5 6 by (intro conjI)
qed

text \<open>
  C8.  In a cube built by the constructor, \<open>is_perfect_code\<close> returns false for every
  list that has the same string at two different positions: when the second occurrence
  is reached, its closed neighbourhood is already covered, unless the verifier has
  returned false before.  This holds whether or not the other elements are vertices.
\<close>

theorem is_perfect_code_rejects_duplicates:
  assumes "GeneralizedLucasCube n s = Inr c"
    and "i < j" and "j < length C" and "C ! i = C ! j"
  shows "is_perfect_code c C = Inr False"
proof -
  have n1: "1 \<le> cube_n c" using GeneralizedLucasCube_Inr[OF assms(1)] by simp
  have "C ! i \<in> closed_neighborhood c (C ! i) \<inter> closed_neighborhood c (C ! j)"
    using assms(4) self_in_closed_neighborhood by simp
  then have "\<not> sorted_wrt (\<lambda>a b. closed_neighborhood c a \<inter> closed_neighborhood c b = {}) C"
    unfolding sorted_wrt_iff_nth_less using assms(2,3) by blast
  then show ?thesis using is_perfect_code_eq[OF n1, of C] by simp
qed

theorem is_perfect_code_rejects_duplicates_witness:
  "is_perfect_code cube_3_3 [''010'', ''101'', ''010''] = Inr False"
  by (rule is_perfect_code_rejects_duplicates[OF GeneralizedLucasCube_3_3, of 0 2]) simp_all

section \<open>The engines on the cube \<open>\<Lambda>\<^sub>3(1\<^sup>3)\<close>\<close>

lemma length_vertices_cube_3_3: "length (vertices cube_3_3) = 7"
  by (simp add: vertices_cube_3_3)

lemma GeneticAlgorithmSearch_3_3: "GeneticAlgorithmSearch 3 3 1 1 (1 / 10) 1 = Inr ga_3_3"
  by (simp add: GeneticAlgorithmSearch_def GeneralizedLucasCube_3_3 ga_3_3_def
        length_vertices_cube_3_3)

lemma MemeticAlgorithmSearch_3_3: "MemeticAlgorithmSearch 3 3 1 1 (1 / 10) 1 3 = Inr ma_3_3"
  by (simp add: MemeticAlgorithmSearch_def GeneralizedLucasCube_3_3 ma_3_3_def
        length_vertices_cube_3_3)

lemma cube_3_3_fields: "cube_n cube_3_3 = 3" "cube_s cube_3_3 = 3"
  by (simp_all add: cube_3_3_def)

lemma SimulatedAnnealingSearch_3_3:
  "SimulatedAnnealingSearch 3 3 1000 (999 / 1000) 1 60 = Inr sa_3_3"
  by (simp add: SimulatedAnnealingSearch_def GeneralizedLucasCube_3_3 sa_3_3_def
        get_theoretical_code_size_def card_vertex_set_cube_3_3 cube_3_3_fields)

section \<open>Fitness of the genetic algorithm\<close>

lemma count_upt_Suc:
  "length (filter P [0..<Suc m]) = (if P 0 then 1 else 0) + length (filter (\<lambda>i. P (Suc i)) [0..<m])"
proof -
  have "[0..<Suc m] = 0 # map Suc [0..<m]"
    by (simp add: upt_conv_Cons map_Suc_upt del: upt_Suc)
  then show ?thesis by (simp add: filter_map comp_def del: upt_Suc)
qed

lemma ga_fitness_loop_eq:
  assumes "1 \<le> cube_n c" "set C \<subseteq> vertex_set c"
  shows "ga_fitness_loop c C covered collisions =
           Inr (covered \<union> \<Union> (closed_neighborhood c ` set C),
                collisions +
                length (filter (\<lambda>i. (covered \<union> \<Union> (closed_neighborhood c ` set (take i C)))
                                      \<inter> closed_neighborhood c (C ! i) \<noteq> {})
                               [0..<length C]))"
  using assms(2)
proof (induction C arbitrary: covered collisions)
  case Nil
  then show ?case by simp
next
  case (Cons w ws)
  then have w: "w \<in> vertex_set c" and ws: "set ws \<subseteq> vertex_set c" by simp_all
  from neighbors_of_member[OF assms(1) w] obtain ns where
    ns: "get_neighbors c w = Inr ns" "insert w (set ns) = closed_neighborhood c w" by blast
  let ?P = "\<lambda>i. (covered \<union> \<Union> (closed_neighborhood c ` set (take i (w # ws))))
                  \<inter> closed_neighborhood c ((w # ws) ! i) \<noteq> {}"
  have count: "length (filter ?P [0..<length (w # ws)]) =
      (if covered \<inter> closed_neighborhood c w \<noteq> {} then 1 else 0)
      + length (filter (\<lambda>i. ((covered \<union> closed_neighborhood c w)
                                \<union> \<Union> (closed_neighborhood c ` set (take i ws)))
                              \<inter> closed_neighborhood c (ws ! i) \<noteq> {}) [0..<length ws])"
    using count_upt_Suc[of ?P "length ws"] by (simp add: Un_assoc del: upt_Suc)
  have "ga_fitness_loop c (w # ws) covered collisions =
          ga_fitness_loop c ws (covered \<union> closed_neighborhood c w)
            (if covered \<inter> closed_neighborhood c w \<noteq> {} then collisions + 1 else collisions)"
    using ns by (simp add: Let_def)
  also have "\<dots> = Inr ((covered \<union> closed_neighborhood c w)
                          \<union> \<Union> (closed_neighborhood c ` set ws),
                        (if covered \<inter> closed_neighborhood c w \<noteq> {}
                         then collisions + 1 else collisions)
                        + length (filter (\<lambda>i. ((covered \<union> closed_neighborhood c w)
                                \<union> \<Union> (closed_neighborhood c ` set (take i ws)))
                              \<inter> closed_neighborhood c (ws ! i) \<noteq> {}) [0..<length ws]))"
    by (rule Cons.IH[OF ws])
  finally show ?case unfolding count by (simp add: Un_assoc)
qed

text \<open>
  C5 (as the code has it).  For an engine built by the constructor and a code \<open>C\<close> whose
  codewords are vertices of the cube, \<open>_calculate_fitness(C)\<close> is
  \<open>coverage - collisions * (n + 1) * 10\<close>, where \<open>coverage\<close> is the size of the union of
  the closed neighbourhoods of the codewords and \<open>collisions\<close> is the number of
  positions of \<open>C\<close> whose codeword's closed neighbourhood meets the closed neighbourhood
  of a codeword at an earlier position.
\<close>

theorem ga_calculate_fitness_formula:
  assumes "GeneticAlgorithmSearch n s population_size generations mutation_rate elitism_k = Inr g"
    and "set C \<subseteq> vertex_set (ga_cube g)"
  shows "ga_calculate_fitness g C =
           Inr (int (coverage (ga_cube g) C) - int (overlap_count (ga_cube g) C) * (n + 1) * 10)"
proof -
  obtain c where c: "GeneralizedLucasCube n s = Inr c"
    using assms(1) by (auto simp: GeneticAlgorithmSearch_def split: sum.splits)
  then have g: "ga_cube g = c" "ga_n g = nat n"
    using assms(1) by (auto simp: GeneticAlgorithmSearch_def)
  note cf = GeneralizedLucasCube_Inr[OF c]
  have n1: "1 \<le> cube_n (ga_cube g)" using cf g by simp
  have "overlap_count (ga_cube g) C =
          length (filter (\<lambda>i. ({} \<union> \<Union> (closed_neighborhood (ga_cube g) ` set (take i C)))
                                \<inter> closed_neighborhood (ga_cube g) (C ! i) \<noteq> {})
                         [0..<length C])"
    by (simp add: overlap_count_def Int_commute)
  then show ?thesis
    using ga_fitness_loop_eq[OF n1 assms(2), of "{}" 0] cf(1) g(2)
    by (simp add: ga_calculate_fitness_def coverage_def)
qed

theorem ga_calculate_fitness_formula_witness:
  "ga_calculate_fitness ga_3_3 [''000'', ''001'', ''010''] =
     Inr (int (coverage cube_3_3 [''000'', ''001'', ''010''])
          - int (overlap_count cube_3_3 [''000'', ''001'', ''010'']) * (3 + 1) * 10)"
proof -
  have "set [''000'', ''001'', ''010''] \<subseteq> vertex_set (ga_cube ga_3_3)"
    by (simp add: ga_3_3_def vertex_set_cube_3_3)
  from ga_calculate_fitness_formula[OF GeneticAlgorithmSearch_3_3 this]
  show ?thesis by (simp add: ga_3_3_def)
qed

text \<open>
  C5 (as the specification states it) fails.  With the collisions counted as the pairs
  of codewords at Hamming distance less than 3, the code \<open>000, 001, 010\<close> of the cube
  with \<open>n = 3\<close> and \<open>s = 3\<close> would have fitness \<open>7 - 3 * 4 * 10 = -113\<close>;
  \<open>_calculate_fitness\<close> returns \<open>7 - 2 * 4 * 10 = -73\<close>.
\<close>

theorem ga_calculate_fitness_pairs_counterexample:
  "GeneticAlgorithmSearch 3 3 1 1 (1 / 10) 1 = Inr ga_3_3
   \<and> ga_calculate_fitness ga_3_3 [''000'', ''001'', ''010''] = Inr (- 73)
   \<and> int (coverage cube_3_3 [''000'', ''001'', ''010''])
       - int (colliding_pair_count [''000'', ''001'', ''010'']) * (3 + 1) * 10 = - 113
   \<and> ga_calculate_fitness ga_3_3 [''000'', ''001'', ''010''] \<noteq>
       Inr (int (coverage cube_3_3 [''000'', ''001'', ''010''])
            - int (colliding_pair_count [''000'', ''001'', ''010'']) * (3 + 1) * 10)"
proof -
  have 1: "ga_calculate_fitness ga_3_3 [''000'', ''001'', ''010''] = Inr (- 73)"
    unfolding ga_3_3_def cube_3_3_def by code_simp
  have 2: "coverage cube_3_3 [''000'', ''001'', ''010''] = 7"
    unfolding cube_3_3_def by code_simp
  have 3: "colliding_pair_count [''000'', ''001'', ''010''] = 3"
    by code_simp
  show ?thesis using GeneticAlgorithmSearch_3_3 1 2 3 by simp
qed

section \<open>Cosets\<close>







section \<open>Single-point crossover of the memetic algorithm\<close>

lemma randrange_result:
  "0 < k \<Longrightarrow> \<exists>i r'. randrange k r = Inr (i, r') \<and> int i < k"
proof -
  assume k: "0 < k"
  obtain d r' where d: "next_draw r = (d, r')" by (cases "next_draw r")
  have "d mod nat k < nat k" using k by simp
  then have "int (d mod nat k) < k" using k by linarith
  then show ?thesis using k d by (simp add: randrange_def)
qed

text \<open>
  C10.  \<open>MemeticAlgorithmSearch._crossover\<close> raises (the \<open>ValueError\<close> of
  \<open>random.randint\<close> on an empty range) whenever a parent has fewer than 2 codewords;
  when both parents have at least 2 codewords it returns
  \<open>parent1[:point] + parent2[point:]\<close> for a \<open>point\<close> with
  \<open>1 \<le> point \<le> min(len(parent1), len(parent2)) - 1\<close>.
\<close>

theorem ma_crossover_cases:
  "(length parent1 < 2 \<or> length parent2 < 2 \<longrightarrow> ma_crossover parent1 parent2 r = Inl ValueError)
   \<and> (2 \<le> length parent1 \<and> 2 \<le> length parent2 \<longrightarrow>
        (\<exists>point r'. 1 \<le> point \<and> point \<le> min (length parent1) (length parent2) - 1
           \<and> ma_crossover parent1 parent2 r = Inr (take point parent1 @ drop point parent2, r')))"
proof (intro conjI impI)
  assume "length parent1 < 2 \<or> length parent2 < 2"
  then have "int (min (length parent1) (length parent2)) - 1 + 1 - 1 \<le> 0" by auto
  then show "ma_crossover parent1 parent2 r = Inl ValueError"
    by (simp add: ma_crossover_def randint_def randrange_def)
next
  let ?m = "min (length parent1) (length parent2)"
  assume "2 \<le> length parent1 \<and> 2 \<le> length parent2"
  then have m: "2 \<le> ?m" by simp
  then have "0 < int ?m - 1 + 1 - 1" by simp
  from randrange_result[OF this] obtain i r' where
    i: "randrange (int ?m - 1 + 1 - 1) r = Inr (i, r')" "int i < int ?m - 1 + 1 - 1"
    by blast
  have "ma_crossover parent1 parent2 r = Inr (take (Suc i) parent1 @ drop (Suc i) parent2, r')"
    using i(1) by (simp add: ma_crossover_def randint_def nat_add_distrib)
  moreover have "1 \<le> Suc i" "Suc i \<le> ?m - 1" using i(2) m by auto
  ultimately show "\<exists>point r'. 1 \<le> point \<and> point \<le> ?m - 1
      \<and> ma_crossover parent1 parent2 r = Inr (take point parent1 @ drop point parent2, r')"
    by blast
qed

theorem ma_crossover_cases_witness:
  "ma_crossover [''000''] [''001'', ''010''] (rng_of_list [7]) = Inl ValueError
   \<and> (\<exists>point r'. 1 \<le> point \<and> point \<le> 2
         \<and> ma_crossover [''000'', ''011'', ''101''] [''110'', ''001'', ''010''] (rng_of_list [7])
             = Inr (take point [''000'', ''011'', ''101''] @ drop point [''110'', ''001'', ''010''], r'))"
  using ma_crossover_cases[of "[''000'']" "[''001'', ''010'']" "rng_of_list [7]"]
        ma_crossover_cases[of "[''000'', ''011'', ''101'']" "[''110'', ''001'', ''010'']"
          "rng_of_list [7]"]
  by (simp add: numeral_2_eq_2)

section \<open>Successful runs on the cube \<open>\<Lambda>\<^sub>3(1\<^sup>3)\<close>\<close>

lemma ga_run_3_3: "ga_run ga_3_3 (rng_of_list [2, 5]) = Inr (Some [''010'', ''101''])"
  unfolding ga_3_3_def cube_3_3_def rng_of_list_def by code_simp

lemma ma_run_3_3: "ma_run ma_3_3 (rng_of_list [2, 5]) = Inr (Some [''010'', ''101''])"
  unfolding ma_3_3_def cube_3_3_def rng_of_list_def by code_simp

lemma sa_energy_010: "sa_calculate_energy sa_3_3 [''010''] = Inr (9, 3, 0)"
  unfolding sa_3_3_def cube_3_3_def by code_simp

lemma sa_3_3_fields: "sa_cube sa_3_3 = cube_3_3" "sa_theoretical_size sa_3_3 = 7 / 4"
  "sa_initial_temp sa_3_3 = 1000" "sa_cooling_rate sa_3_3 = 999 / 1000" "sa_max_iterations sa_3_3 = 1"
  by (simp_all add: sa_3_3_def)

lemma rng_of_list_at: "rng_of_list ds = rng_at ds 0"
  by (simp add: rng_at_def rng_of_list_def)

lemma next_draw_rng_at:
  "next_draw (rng_at ds k) = ((if k < length ds then ds ! k else 0), rng_at ds (Suc k))"
  by (simp add: next_draw_def rng_at_def rng_of_list_def)

lemma sa_initial_state_3_3: "sa_initial_state sa_3_3 (rng_at [2, 0, 4] 0) =
   Inr (\<lparr>current_code = [''010''], current_energy = 9, best_code = [''010''],
         best_energy = 9, temp = 1000\<rparr>, rng_at [2, 0, 4] (Suc 0))"
  by (simp add: sa_initial_state_def sa_3_3_fields vertices_cube_3_3 random_sample_def py_int_def
        next_draw_rng_at sa_energy_010)


lemma sa_energy_010_101: "sa_calculate_energy sa_3_3 [''010'', ''101''] = Inr (0, 0, 0)"
  unfolding sa_3_3_def cube_3_3_def by code_simp

lemma perfect_010_101: "is_perfect_code cube_3_3 [''010'', ''101''] = Inr True"
  unfolding cube_3_3_def by code_simp

lemma sa_get_neighbor_3_3: "sa_get_neighbor sa_3_3 [''010''] (rng_at [2, 0, 4] (Suc 0)) =
   Inr ([''010'', ''101''], rng_at [2, 0, 4] (Suc (Suc (Suc 0))))"
  by (simp add: sa_get_neighbor_def sa_apply_action_def sa_3_3_fields vertices_cube_3_3
        random_choice_def next_draw_rng_at set_minus_def set_add_def)


lemma sa_iteration_3_3: "sa_iteration sa_3_3 \<lparr>current_code = [''010''], current_energy = 9, best_code = [''010''],
         best_energy = 9, temp = 1000\<rparr> (rng_at [2, 0, 4] (Suc 0))
     = Inr (Inl [''010'', ''101''])"
  by (simp add: sa_iteration_def sa_get_neighbor_3_3 sa_energy_010_101 sa_accept_def sa_3_3_fields perfect_010_101)

lemma sa_run_3_3: "sa_run sa_3_3 (rng_of_list [2, 0, 4]) = Inr (Some [''010'', ''101''])"
  by (simp add: sa_run_def rng_of_list_at sa_initial_state_3_3 sa_3_3_fields sa_iteration_3_3)

section \<open>Every returned code has passed the verifier\<close>

lemma ga_generation_verified:
  "ga_generation g population r = Inr (Inl code) \<Longrightarrow> is_perfect_code (ga_cube g) code = Inr True"
  by (auto simp: ga_generation_def split: sum.splits bool.splits if_splits)

lemma ga_run_loop_verified:
  "ga_run_loop g k population r = Inr (Some code) \<Longrightarrow> is_perfect_code (ga_cube g) code = Inr True"
proof (induction k arbitrary: population r)
  case 0
  then show ?case by simp
next
  case (Suc k)
  then show ?case
    by (auto split: sum.splits prod.splits dest: ga_generation_verified)
qed

lemma ga_run_verified:
  "ga_run g r = Inr (Some code) \<Longrightarrow> is_perfect_code (ga_cube g) code = Inr True"
  by (auto simp: ga_run_def split: sum.splits prod.splits dest: ga_run_loop_verified)

lemma ma_generation_verified:
  "ma_generation m population r = Inr (Inl code) \<Longrightarrow> is_perfect_code (ma_cube m) code = Inr True"
  by (auto simp: ma_generation_def Let_def
      split: sum.splits bool.splits if_splits prod.splits option.splits)

lemma ma_run_loop_verified:
  "ma_run_loop m k population r = Inr (Some code) \<Longrightarrow> is_perfect_code (ma_cube m) code = Inr True"
proof (induction k arbitrary: population r)
  case 0
  then show ?case by simp
next
  case (Suc k)
  then show ?case
    by (auto split: sum.splits prod.splits dest: ma_generation_verified)
qed

lemma ma_run_verified:
  "ma_run m r = Inr (Some code) \<Longrightarrow> is_perfect_code (ma_cube m) code = Inr True"
  by (auto simp: ma_run_def split: sum.splits prod.splits dest: ma_run_loop_verified)

lemma sa_iteration_verified:
  "sa_iteration a st r = Inr (Inl code) \<Longrightarrow> is_perfect_code (sa_cube a) code = Inr True"
  by (auto simp: sa_iteration_def Let_def
      split: sum.splits bool.splits if_splits prod.splits)

lemma sa_run_loop_verified:
  "sa_run_loop a k st r = Inr (Some code) \<Longrightarrow> is_perfect_code (sa_cube a) code = Inr True"
proof (induction k arbitrary: st r)
  case 0
  then show ?case by simp
next
  case (Suc k)
  then show ?case
    by (auto split: sum.splits prod.splits dest: sa_iteration_verified)
qed

lemma sa_run_verified:
  "sa_run a r = Inr (Some code) \<Longrightarrow> is_perfect_code (sa_cube a) code = Inr True"
  by (auto simp: sa_run_def split: sum.splits prod.splits dest: sa_run_loop_verified)


text \<open>
  C6.  Whenever \<open>run\<close> of one of the three engines returns a code, \<open>is_perfect_code\<close> of
  the engine's verifier is true of that code: the only \<open>return\<close> of a code in each
  \<open>run\<close> is inside \<open>if self.searcher.is_perfect_code(...)\<close>, whatever made the engine
  ask (fitness at least the number of vertices, no uncovered vertex and no collision,
  zero energy).  This holds for every engine object and every sequence of random draws.
\<close>

theorem run_returns_only_verified_codes:
  "(ga_run g rg = Inr (Some cg) \<longrightarrow> is_perfect_code (ga_cube g) cg = Inr True)
   \<and> (ma_run m rm = Inr (Some cm) \<longrightarrow> is_perfect_code (ma_cube m) cm = Inr True)
   \<and> (sa_run a ra = Inr (Some ca) \<longrightarrow> is_perfect_code (sa_cube a) ca = Inr True)"
  using ga_run_verified ma_run_verified sa_run_verified by blast

theorem run_returns_only_verified_codes_witness:
  "ga_run ga_3_3 (rng_of_list [2, 5]) = Inr (Some [''010'', ''101''])
   \<and> ma_run ma_3_3 (rng_of_list [2, 5]) = Inr (Some [''010'', ''101''])
   \<and> sa_run sa_3_3 (rng_of_list [2, 0, 4]) = Inr (Some [''010'', ''101''])
   \<and> is_perfect_code (ga_cube ga_3_3) [''010'', ''101''] = Inr True
   \<and> is_perfect_code (ma_cube ma_3_3) [''010'', ''101''] = Inr True
   \<and> is_perfect_code (sa_cube sa_3_3) [''010'', ''101''] = Inr True"
  using run_returns_only_verified_codes[of ga_3_3 "rng_of_list [2, 5]" "[''010'', ''101'']"
          ma_3_3 "rng_of_list [2, 5]" "[''010'', ''101'']"
          sa_3_3 "rng_of_list [2, 0, 4]" "[''010'', ''101'']"]
        ga_run_3_3 ma_run_3_3 sa_run_3_3
  by simp

section \<open>Temperature of the annealing search\<close>















section \<open>A run with a negative cooling rate\<close>















section \<open>How the engines start\<close>

lemma sample_loop_length: "length (fst (sample_loop pool k r)) = k"
proof (induction k arbitrary: pool r)
  case 0
  then show ?case by simp
next
  case (Suc k)
  obtain d g1 where d: "next_draw r = (d, g1)" by (cases "next_draw r")
  obtain res g2 where
    res: "sample_loop (butlast (pool[d mod length pool := last pool])) k g1 = (res, g2)"
    by (cases "sample_loop (butlast (pool[d mod length pool := last pool])) k g1")
  have "length res = k"
    using Suc.IH[of "butlast (pool[d mod length pool := last pool])" g1] res by simp
  then show ?case using d res by (simp add: Let_def)
qed

lemma set_butlast_update_last: "set (butlast (pool[j := last pool])) \<subseteq> set pool"
proof (cases "pool = []")
  case True
  then show ?thesis by simp
next
  case False
  have "set (butlast (pool[j := last pool])) \<subseteq> set (pool[j := last pool])"
    by (meson in_set_butlastD subsetI)
  also have "\<dots> \<subseteq> insert (last pool) (set pool)" by (rule set_update_subset_insert)
  also have "\<dots> = set pool" using False by (simp add: insert_absorb)
  finally show ?thesis .
qed

lemma sample_loop_subset:
  "k \<le> length pool \<Longrightarrow> set (fst (sample_loop pool k r)) \<subseteq> set pool"
proof (induction k arbitrary: pool r)
  case 0
  then show ?case by simp
next
  case (Suc k)
  obtain d g1 where d: "next_draw r = (d, g1)" by (cases "next_draw r")
  let ?j = "d mod length pool"
  let ?pool' = "butlast (pool[?j := last pool])"
  obtain res g2 where res: "sample_loop ?pool' k g1 = (res, g2)"
    by (cases "sample_loop ?pool' k g1")
  have ne: "pool \<noteq> []" using Suc.prems by auto
  then have "pool ! ?j \<in> set pool" by simp
  moreover have "k \<le> length ?pool'" using Suc.prems by simp
  then have "set res \<subseteq> set ?pool'" using Suc.IH[of ?pool' g1] res by simp
  then have "set res \<subseteq> set pool" using set_butlast_update_last[of pool ?j] by blast
  ultimately show ?case using d res by (simp add: Let_def)
qed

lemma random_sample_ok:
  assumes "0 \<le> k" "k \<le> int (length xs)"
  shows "\<exists>ys r'. random_sample xs k r = Inr (ys, r') \<and> length ys = nat k \<and> set ys \<subseteq> set xs"
proof -
  obtain ys r' where s: "sample_loop xs (nat k) r = (ys, r')"
    by (cases "sample_loop xs (nat k) r")
  have "length ys = nat k" using sample_loop_length[of xs "nat k" r] s by simp
  moreover have "set ys \<subseteq> set xs"
    using sample_loop_subset[of "nat k" xs r] s assms by simp
  ultimately show ?thesis using assms s by (simp add: random_sample_def)
qed

lemma div_round_up:
  fixes v m :: int
  assumes "0 \<le> v" "0 < m"
  shows "(v + (m - 1)) div m = \<lceil>real_of_int v / real_of_int m\<rceil>"
    and "0 \<le> (v + (m - 1)) div m" and "(v + (m - 1)) div m \<le> v"
proof -
  let ?z = "(v + (m - 1)) div m"
  have eq: "v + (m - 1) = m * ?z + (v + (m - 1)) mod m" by simp
  have r0: "0 \<le> (v + (m - 1)) mod m" and r1: "(v + (m - 1)) mod m < m"
    using assms(2) by simp_all
  have up: "v \<le> m * ?z" using eq r1 by linarith
  have lo: "m * (?z - 1) < v"
  proof -
    have "m * (?z - 1) = m * ?z - m" by (simp add: algebra_simps)
    then show ?thesis using eq r0 by linarith
  qed
  have "real_of_int v / real_of_int m \<le> real_of_int ?z"
  proof -
    have "real_of_int v \<le> real_of_int (m * ?z)" using up by linarith
    then show ?thesis using assms(2) by (simp add: pos_divide_le_eq mult.commute)
  qed
  moreover have "real_of_int ?z - 1 < real_of_int v / real_of_int m"
  proof -
    have "real_of_int (m * (?z - 1)) < real_of_int v" using lo by linarith
    then show ?thesis using assms(2) by (simp add: pos_less_divide_eq mult.commute)
  qed
  ultimately show "?z = \<lceil>real_of_int v / real_of_int m\<rceil>"
    by (intro ceiling_unique[symmetric]) simp_all
  show "0 \<le> ?z" using assms by (simp add: pos_imp_zdiv_nonneg_iff)
  show "?z \<le> v"
  proof (rule ccontr)
    assume "\<not> ?z \<le> v"
    then have "v + 1 \<le> ?z" by simp
    then have "m * (v + 1) \<le> m * ?z" using assms(2) by (intro mult_left_mono) simp_all
    moreover have "m * (v + 1) = m * v + m" by (simp add: algebra_simps)
    moreover have "v \<le> m * v" using assms by (simp add: mult_le_cancel_right1)
    ultimately show False using eq r0 by linarith
  qed
qed

lemma distinct_vertices:
  assumes "1 \<le> cube_n c"
  shows "distinct (vertices c)"
proof -
  let ?all = "map (format_0b (cube_n c)) [0..<2 ^ cube_n c]"
  have "card (set ?all) = length ?all"
    using format_0b_range[OF assms] card_bit_strings[of "cube_n c"] by simp
  then have "distinct ?all" by (rule card_distinct)
  then show ?thesis by (simp add: vertices_def generate_vertices_def)
qed

lemma card_vertex_set:
  "1 \<le> cube_n c \<Longrightarrow> card (vertex_set c) = length (vertices c)"
  by (simp add: vertex_set_def distinct_card distinct_vertices)

lemma ga_initialize_loop_ok:
  assumes "0 \<le> ga_theoretical_size g"
    and "ga_theoretical_size g \<le> int (length (vertices (ga_cube g)))"
  shows "\<exists>new r'. ga_initialize_loop g k population r = Inr (population @ new, r')
           \<and> length new = k
           \<and> (\<forall>ind\<in>set new. length ind = nat (ga_theoretical_size g))"
proof (induction k arbitrary: population r)
  case 0
  then show ?case by simp
next
  case (Suc k)
  from random_sample_ok[OF assms, of r] obtain cand r1 where
    c: "random_sample (vertices (ga_cube g)) (ga_theoretical_size g) r = Inr (cand, r1)"
       "length cand = nat (ga_theoretical_size g)" by blast
  from Suc.IH[of "population @ [cand]" r1] obtain new r' where
    n: "ga_initialize_loop g k (population @ [cand]) r1 = Inr ((population @ [cand]) @ new, r')"
       "length new = k" "\<forall>ind\<in>set new. length ind = nat (ga_theoretical_size g)" by blast
  have "ga_initialize_loop g (Suc k) population r = Inr (population @ (cand # new), r')"
    using c(1) n(1) by simp
  moreover have "length (cand # new) = Suc k" using n(2) by simp
  moreover have "\<forall>ind\<in>set (cand # new). length ind = nat (ga_theoretical_size g)"
    using c(2) n(3) by simp
  ultimately show ?case by blast
qed

lemma ma_initialize_loop_ok:
  assumes "0 \<le> ma_theoretical_size m"
    and "ma_theoretical_size m \<le> int (length (vertices (ma_cube m)))"
  shows "\<exists>population r'. ma_initialize_loop m k r = Inr (population, r')
           \<and> length population = k
           \<and> (\<forall>ind\<in>set population. length ind = nat (ma_theoretical_size m))"
proof (induction k arbitrary: r)
  case 0
  then show ?case by simp
next
  case (Suc k)
  from random_sample_ok[OF assms, of r] obtain cand r1 where
    c: "random_sample (vertices (ma_cube m)) (ma_theoretical_size m) r = Inr (cand, r1)"
       "length cand = nat (ma_theoretical_size m)" by blast
  from Suc.IH[of r1] obtain population r' where
    n: "ma_initialize_loop m k r1 = Inr (population, r')"
       "length population = k"
       "\<forall>ind\<in>set population. length ind = nat (ma_theoretical_size m)" by blast
  have "ma_initialize_loop m (Suc k) r = Inr (cand # population, r')"
    using c(1) n(1) by simp
  then show ?case using c(2) n(2,3) by auto
qed

lemma map_err_ok:
  "(\<forall>x\<in>set xs. \<exists>y. f x = Inr y) \<Longrightarrow> \<exists>ys. map_err f xs = Inr ys"
proof (induction xs)
  case Nil
  then show ?case by simp
next
  case (Cons x xs)
  then obtain y ys where "f x = Inr y" "map_err f xs = Inr ys" by auto
  then show ?case by simp
qed

lemma get_closed_neighborhood_ok:
  assumes "1 \<le> cube_n c"
  shows "\<exists>ns. get_closed_neighborhood c v = Inr ns"
proof (cases "v \<in> vertex_set c")
  case True
  then show ?thesis
    using neighbors_of_member[OF assms True]
    by (auto simp: get_closed_neighborhood_def contains_def)
next
  case False
  then show ?thesis by (simp add: get_closed_neighborhood_def contains_def)
qed

lemma sa_calculate_energy_ok:
  assumes "1 \<le> cube_n (sa_cube a)" "set code \<subseteq> vertex_set (sa_cube a)"
  shows "\<exists>e. sa_calculate_energy a code = Inr e"
proof -
  let ?pairs = "[(cw1, cw2). cw1 \<leftarrow> remdups code, cw2 \<leftarrow> remdups code, \<not> cw1 \<ge> cw2]"
  have "\<exists>d. (\<lambda>(cw1, cw2). get_hamming_distance cw1 cw2) p = Inr d" if "p \<in> set ?pairs" for p
  proof -
    obtain cw1 cw2 where p: "p = (cw1, cw2)" by (cases p)
    then have "cw1 \<in> vertex_set (sa_cube a)" "cw2 \<in> vertex_set (sa_cube a)"
      using that assms(2) by auto
    then have "length cw1 = length cw2"
      using member_props(1)[OF assms(1)] by simp
    then show ?thesis using p by (simp add: get_hamming_distance_def)
  qed
  then obtain distances where
    d: "map_err (\<lambda>(cw1, cw2). get_hamming_distance cw1 cw2) ?pairs = Inr distances"
    using map_err_ok[of ?pairs "\<lambda>(cw1, cw2). get_hamming_distance cw1 cw2"] by blast
  obtain neighborhoods where
    n: "map_err (get_closed_neighborhood (sa_cube a)) (remdups code) = Inr neighborhoods"
    using map_err_ok[of "remdups code" "get_closed_neighborhood (sa_cube a)"]
      get_closed_neighborhood_ok[OF assms(1)] by blast
  show ?thesis
    unfolding sa_calculate_energy_def Let_def d n by simp
qed

lemma theoretical_size_rounded_up:
  assumes "GeneralizedLucasCube n s = Inr c"
  shows "(int (length (vertices c)) + n) div (n + 1) = \<lceil>get_theoretical_code_size c\<rceil>"
    and "0 \<le> (int (length (vertices c)) + n) div (n + 1)"
    and "(int (length (vertices c)) + n) div (n + 1) \<le> int (length (vertices c))"
proof -
  note c = GeneralizedLucasCube_Inr[OF assms]
  have n1: "1 \<le> cube_n c" using c by simp
  let ?v = "int (length (vertices c))"
  have m: "0 < n + 1" using c by simp
  have same: "?v + n = ?v + (n + 1 - 1)" by simp
  have "get_theoretical_code_size c = real_of_int ?v / real_of_int (n + 1)"
    using c card_vertex_set[OF n1] by (simp add: get_theoretical_code_size_def)
  then show "(?v + n) div (n + 1) = \<lceil>get_theoretical_code_size c\<rceil>"
    using div_round_up(1)[of ?v "n + 1"] m unfolding same by simp
  show "0 \<le> (?v + n) div (n + 1)"
    using div_round_up(2)[of ?v "n + 1"] m unfolding same by simp
  show "(?v + n) div (n + 1) \<le> ?v"
    using div_round_up(3)[of ?v "n + 1"] m unfolding same by simp
qed

lemma theoretical_size_rounded_down:
  assumes "GeneralizedLucasCube n s = Inr c"
  shows "py_int (get_theoretical_code_size c) = \<lfloor>get_theoretical_code_size c\<rfloor>"
    and "0 \<le> \<lfloor>get_theoretical_code_size c\<rfloor>"
    and "\<lfloor>get_theoretical_code_size c\<rfloor> \<le> int (length (vertices c))"
proof -
  note c = GeneralizedLucasCube_Inr[OF assms]
  have n1: "1 \<le> cube_n c" using c by simp
  have nonneg: "0 \<le> get_theoretical_code_size c"
    by (simp add: get_theoretical_code_size_def)
  then show "py_int (get_theoretical_code_size c) = \<lfloor>get_theoretical_code_size c\<rfloor>"
    by (simp add: py_int_def)
  show "0 \<le> \<lfloor>get_theoretical_code_size c\<rfloor>" using nonneg by simp
  have "real (card (vertex_set c)) / real (cube_n c + 1) \<le> real (card (vertex_set c)) / 1"
    by (intro divide_left_mono) simp_all
  then have "get_theoretical_code_size c \<le> real (length (vertices c))"
    using card_vertex_set[OF n1] by (simp add: get_theoretical_code_size_def)
  then have "get_theoretical_code_size c < of_int (int (length (vertices c))) + 1" by simp
  then show "\<lfloor>get_theoretical_code_size c\<rfloor> \<le> int (length (vertices c))"
    unfolding floor_le_iff .
qed

lemma ga_starts:
  assumes "GeneticAlgorithmSearch n s population_size generations mutation_rate elitism_k = Inr g"
  shows "ga_theoretical_size g = \<lceil>get_theoretical_code_size (ga_cube g)\<rceil>
      \<and> (\<exists>population r'. ga_initialize_population g r = Inr (population, r')
           \<and> length population = nat population_size
           \<and> (\<forall>ind\<in>set population.
                  int (length ind) = \<lceil>get_theoretical_code_size (ga_cube g)\<rceil>)
           \<and> ga_run g r = ga_run_loop g (nat generations) population r')"
proof -
  obtain c where c: "GeneralizedLucasCube n s = Inr c"
    using assms by (auto simp: GeneticAlgorithmSearch_def split: sum.splits)
  then have g: "ga_cube g = c" "ga_population_size g = population_size"
      "ga_generations g = generations"
      "ga_theoretical_size g = (int (length (vertices c)) + n) div (n + 1)"
    using assms by (auto simp: GeneticAlgorithmSearch_def)
  note ts = theoretical_size_rounded_up[OF c]
  have ts1: "ga_theoretical_size g = \<lceil>get_theoretical_code_size (ga_cube g)\<rceil>"
    using g ts(1) by simp
  have "0 \<le> ga_theoretical_size g"
       "ga_theoretical_size g \<le> int (length (vertices (ga_cube g)))"
    using g ts(2,3) by simp_all
  from ga_initialize_loop_ok[OF this, of "nat population_size" "[]" r]
  obtain population r' where
    p: "ga_initialize_population g r = Inr (population, r')"
       "length population = nat population_size"
       "\<forall>ind\<in>set population. length ind = nat (ga_theoretical_size g)"
    using g(2) by (auto simp: ga_initialize_population_def)
  have "\<forall>ind\<in>set population. int (length ind) = \<lceil>get_theoretical_code_size (ga_cube g)\<rceil>"
    using p(3) ts1 \<open>0 \<le> ga_theoretical_size g\<close> by simp
  moreover have "ga_run g r = ga_run_loop g (nat generations) population r'"
    using p(1) g(3) by (simp add: ga_run_def)
  ultimately show ?thesis using ts1 p(1,2) by blast
qed

lemma ma_starts:
  assumes "MemeticAlgorithmSearch n s population_size generations mutation_rate elitism_k
             local_search_steps = Inr m"
  shows "ma_theoretical_size m = \<lceil>get_theoretical_code_size (ma_cube m)\<rceil>
      \<and> (\<exists>population r'. ma_initialize_population m r = Inr (population, r')
           \<and> length population = nat population_size
           \<and> (\<forall>ind\<in>set population.
                  int (length ind) = \<lceil>get_theoretical_code_size (ma_cube m)\<rceil>)
           \<and> ma_run m r = ma_run_loop m (nat generations) population r')"
proof -
  obtain c where c: "GeneralizedLucasCube n s = Inr c"
    using assms by (auto simp: MemeticAlgorithmSearch_def split: sum.splits)
  then have g: "ma_cube m = c" "ma_population_size m = population_size"
      "ma_generations m = generations"
      "ma_theoretical_size m = (int (length (vertices c)) + n) div (n + 1)"
    using assms by (auto simp: MemeticAlgorithmSearch_def)
  note ts = theoretical_size_rounded_up[OF c]
  have ts1: "ma_theoretical_size m = \<lceil>get_theoretical_code_size (ma_cube m)\<rceil>"
    using g ts(1) by simp
  have "0 \<le> ma_theoretical_size m"
       "ma_theoretical_size m \<le> int (length (vertices (ma_cube m)))"
    using g ts(2,3) by simp_all
  from ma_initialize_loop_ok[OF this, of "nat population_size" r]
  obtain population r' where
    p: "ma_initialize_population m r = Inr (population, r')"
       "length population = nat population_size"
       "\<forall>ind\<in>set population. length ind = nat (ma_theoretical_size m)"
    using g(2) by (auto simp: ma_initialize_population_def)
  have "\<forall>ind\<in>set population. int (length ind) = \<lceil>get_theoretical_code_size (ma_cube m)\<rceil>"
    using p(3) ts1 \<open>0 \<le> ma_theoretical_size m\<close> by simp
  moreover have "ma_run m r = ma_run_loop m (nat generations) population r'"
    using p(1) g(3) by (simp add: ma_run_def)
  ultimately show ?thesis using ts1 p(1,2) by blast
qed

lemma sa_starts:
  assumes "SimulatedAnnealingSearch n s initial_temp cooling_rate max_iterations
             collision_penalty = Inr a"
  shows "\<exists>st0 r'. sa_initial_state a r = Inr (st0, r')
           \<and> int (length (current_code st0)) = \<lfloor>get_theoretical_code_size (sa_cube a)\<rfloor>
           \<and> sa_run a r = sa_run_loop a (nat max_iterations) st0 r'"
proof -
  obtain c where c: "GeneralizedLucasCube n s = Inr c"
    using assms by (auto simp: SimulatedAnnealingSearch_def split: sum.splits)
  then have g: "sa_cube a = c" "sa_max_iterations a = max_iterations"
      "sa_theoretical_size a = get_theoretical_code_size c"
    using assms by (auto simp: SimulatedAnnealingSearch_def)
  have n1: "1 \<le> cube_n (sa_cube a)" using GeneralizedLucasCube_Inr[OF c] g by simp
  note ts = theoretical_size_rounded_down[OF c]
  have k: "py_int (sa_theoretical_size a) = \<lfloor>get_theoretical_code_size (sa_cube a)\<rfloor>"
    using g ts(1) by simp
  have "0 \<le> py_int (sa_theoretical_size a)"
       "py_int (sa_theoretical_size a) \<le> int (length (vertices (sa_cube a)))"
    using g ts by simp_all
  from random_sample_ok[OF this, of r] obtain code r1 where
    s: "random_sample (vertices (sa_cube a)) (py_int (sa_theoretical_size a)) r = Inr (code, r1)"
       "length code = nat (py_int (sa_theoretical_size a))"
       "set code \<subseteq> set (vertices (sa_cube a))" by blast
  from sa_calculate_energy_ok[OF n1, of code] s(3) obtain energy uncovered collisions where
    e: "sa_calculate_energy a code = Inr (energy, uncovered, collisions)"
    by (auto simp: vertex_set_def)
  let ?st0 = "\<lparr>current_code = code, current_energy = energy, best_code = code,
                best_energy = energy, temp = sa_initial_temp a\<rparr>"
  have i: "sa_initial_state a r = Inr (?st0, r1)"
    using s(1) e by (simp add: sa_initial_state_def)
  moreover have "int (length (current_code ?st0)) = \<lfloor>get_theoretical_code_size (sa_cube a)\<rfloor>"
    using s(2) k g ts(2) by simp
  moreover have "sa_run a r = sa_run_loop a (nat max_iterations) ?st0 r1"
    using i g(2) by (simp add: sa_run_def)
  ultimately show ?thesis by blast
qed

text \<open>
  C3 (as the code has it).  No engine checks whether \<open>theoretical_code_size\<close> is an
  integer.  Whatever its value, the genetic and the memetic algorithm round it up and
  start from \<open>population_size\<close> random codes of that many vertices, and the annealing
  search rounds it down and starts from one random code of that many vertices; each \<open>run\<close>
  then enters its loop with the whole budget of generations or iterations.
\<close>

theorem engines_start_without_integrality_check:
  "(GeneticAlgorithmSearch n s population_size generations mutation_rate elitism_k = Inr g \<longrightarrow>
      ga_theoretical_size g = \<lceil>get_theoretical_code_size (ga_cube g)\<rceil>
      \<and> (\<exists>population r'. ga_initialize_population g rg = Inr (population, r')
           \<and> length population = nat population_size
           \<and> (\<forall>ind\<in>set population.
                  int (length ind) = \<lceil>get_theoretical_code_size (ga_cube g)\<rceil>)
           \<and> ga_run g rg = ga_run_loop g (nat generations) population r'))
   \<and> (MemeticAlgorithmSearch n s population_size generations mutation_rate elitism_k
          local_search_steps = Inr m \<longrightarrow>
      ma_theoretical_size m = \<lceil>get_theoretical_code_size (ma_cube m)\<rceil>
      \<and> (\<exists>population r'. ma_initialize_population m rm = Inr (population, r')
           \<and> length population = nat population_size
           \<and> (\<forall>ind\<in>set population.
                  int (length ind) = \<lceil>get_theoretical_code_size (ma_cube m)\<rceil>)
           \<and> ma_run m rm = ma_run_loop m (nat generations) population r'))
   \<and> (SimulatedAnnealingSearch n s initial_temp cooling_rate max_iterations
          collision_penalty = Inr a \<longrightarrow>
      (\<exists>st0 r'. sa_initial_state a ra = Inr (st0, r')
           \<and> int (length (current_code st0)) = \<lfloor>get_theoretical_code_size (sa_cube a)\<rfloor>
           \<and> sa_run a ra = sa_run_loop a (nat max_iterations) st0 r'))"
proof -
  have 1: "GeneticAlgorithmSearch n s population_size generations mutation_rate elitism_k = Inr g \<longrightarrow>
      ga_theoretical_size g = \<lceil>get_theoretical_code_size (ga_cube g)\<rceil>
      \<and> (\<exists>population r'. ga_initialize_population g rg = Inr (population, r')
           \<and> length population = nat population_size
           \<and> (\<forall>ind\<in>set population.
                  int (length ind) = \<lceil>get_theoretical_code_size (ga_cube g)\<rceil>)
           \<and> ga_run g rg = ga_run_loop g (nat generations) population r')"
    by (rule impI) (rule ga_starts)
  have 2: "MemeticAlgorithmSearch n s population_size generations mutation_rate elitism_k
          local_search_steps = Inr m \<longrightarrow>
      ma_theoretical_size m = \<lceil>get_theoretical_code_size (ma_cube m)\<rceil>
      \<and> (\<exists>population r'. ma_initialize_population m rm = Inr (population, r')
           \<and> length population = nat population_size
           \<and> (\<forall>ind\<in>set population.
                  int (length ind) = \<lceil>get_theoretical_code_size (ma_cube m)\<rceil>)
           \<and> ma_run m rm = ma_run_loop m (nat generations) population r')"
    by (rule impI) (rule ma_starts)
  have 3: "SimulatedAnnealingSearch n s initial_temp cooling_rate max_iterations
          collision_penalty = Inr a \<longrightarrow>
      (\<exists>st0 r'. sa_initial_state a ra = Inr (st0, r')
           \<and> int (length (current_code st0)) = \<lfloor>get_theoretical_code_size (sa_cube a)\<rfloor>
           \<and> sa_run a ra = sa_run_loop a (nat max_iterations) st0 r')"
    by (rule impI) (rule sa_starts)
  show ?thesis by (rule conjI[OF 1 conjI[OF 2 3]])
qed

lemma theoretical_size_cube_3_3:
  "get_theoretical_code_size cube_3_3 = 7 / 4" "get_theoretical_code_size cube_3_3 \<notin> \<int>"
proof -
  show 1: "get_theoretical_code_size cube_3_3 = 7 / 4"
    by (simp add: get_theoretical_code_size_def card_vertex_set_cube_3_3 cube_3_3_fields)
  have "frac (7 / 4 :: real) \<noteq> 0" by (simp add: frac_def)
  then show "get_theoretical_code_size cube_3_3 \<notin> \<int>"
    unfolding 1 frac_eq_0_iff .
qed

theorem engines_start_without_integrality_check_witness:
  "ga_theoretical_size ga_3_3 = \<lceil>get_theoretical_code_size (ga_cube ga_3_3)\<rceil>
   \<and> (\<exists>population r'.
         ga_initialize_population ga_3_3 (rng_of_list [2, 5]) = Inr (population, r')
         \<and> ga_run ga_3_3 (rng_of_list [2, 5]) = ga_run_loop ga_3_3 (nat 1) population r')
   \<and> ma_theoretical_size ma_3_3 = \<lceil>get_theoretical_code_size (ma_cube ma_3_3)\<rceil>
   \<and> (\<exists>population r'.
         ma_initialize_population ma_3_3 (rng_of_list [2, 5]) = Inr (population, r')
         \<and> ma_run ma_3_3 (rng_of_list [2, 5]) = ma_run_loop ma_3_3 (nat 1) population r')
   \<and> (\<exists>st0 r'. sa_initial_state sa_3_3 (rng_of_list [2, 0, 4]) = Inr (st0, r')
         \<and> int (length (current_code st0)) = \<lfloor>get_theoretical_code_size (sa_cube sa_3_3)\<rfloor>
         \<and> sa_run sa_3_3 (rng_of_list [2, 0, 4]) = sa_run_loop sa_3_3 (nat 1) st0 r')"
proof -
  note main = engines_start_without_integrality_check
  have 1: "ga_theoretical_size ga_3_3 = \<lceil>get_theoretical_code_size (ga_cube ga_3_3)\<rceil>
      \<and> (\<exists>population r'. ga_initialize_population ga_3_3 (rng_of_list [2, 5]) = Inr (population, r')
           \<and> length population = nat 1
           \<and> (\<forall>ind\<in>set population.
                  int (length ind) = \<lceil>get_theoretical_code_size (ga_cube ga_3_3)\<rceil>)
           \<and> ga_run ga_3_3 (rng_of_list [2, 5]) = ga_run_loop ga_3_3 (nat 1) population r')"
    by (rule main[THEN conjunct1, rule_format, OF GeneticAlgorithmSearch_3_3])
  have 2: "ma_theoretical_size ma_3_3 = \<lceil>get_theoretical_code_size (ma_cube ma_3_3)\<rceil>
      \<and> (\<exists>population r'. ma_initialize_population ma_3_3 (rng_of_list [2, 5]) = Inr (population, r')
           \<and> length population = nat 1
           \<and> (\<forall>ind\<in>set population.
                  int (length ind) = \<lceil>get_theoretical_code_size (ma_cube ma_3_3)\<rceil>)
           \<and> ma_run ma_3_3 (rng_of_list [2, 5]) = ma_run_loop ma_3_3 (nat 1) population r')"
    by (rule main[THEN conjunct2, THEN conjunct1, rule_format, OF MemeticAlgorithmSearch_3_3])
  have 3: "\<exists>st0 r'. sa_initial_state sa_3_3 (rng_of_list [2, 0, 4]) = Inr (st0, r')
         \<and> int (length (current_code st0)) = \<lfloor>get_theoretical_code_size (sa_cube sa_3_3)\<rfloor>
         \<and> sa_run sa_3_3 (rng_of_list [2, 0, 4]) = sa_run_loop sa_3_3 (nat 1) st0 r'"
    by (rule main[THEN conjunct2, THEN conjunct2, rule_format, OF SimulatedAnnealingSearch_3_3])
  from 1 2 3 show ?thesis by blast
qed

text \<open>
  C3 (as the specification states it) fails.  For the cube with \<open>n = 3\<close> and \<open>s = 3\<close> the
  theoretical code size is \<open>7 / 4\<close>, not an integer; yet each engine runs, and with the
  draws below each returns the perfect code \<open>010, 101\<close> instead of reporting infeasible
  parameters.
\<close>

theorem engines_run_on_non_integral_size_counterexample:
  "get_theoretical_code_size cube_3_3 = 7 / 4
   \<and> get_theoretical_code_size cube_3_3 \<notin> \<int>
   \<and> GeneticAlgorithmSearch 3 3 1 1 (1 / 10) 1 = Inr ga_3_3
   \<and> ga_run ga_3_3 (rng_of_list [2, 5]) = Inr (Some [''010'', ''101''])
   \<and> MemeticAlgorithmSearch 3 3 1 1 (1 / 10) 1 3 = Inr ma_3_3
   \<and> ma_run ma_3_3 (rng_of_list [2, 5]) = Inr (Some [''010'', ''101''])
   \<and> SimulatedAnnealingSearch 3 3 1000 (999 / 1000) 1 60 = Inr sa_3_3
   \<and> sa_run sa_3_3 (rng_of_list [2, 0, 4]) = Inr (Some [''010'', ''101''])"
  using theoretical_size_cube_3_3 GeneticAlgorithmSearch_3_3 ga_run_3_3
    MemeticAlgorithmSearch_3_3 ma_run_3_3 SimulatedAnnealingSearch_3_3 sa_run_3_3
  by (intro conjI)

end
